theory Spec2Isabelle
  imports Main "HOL-Library.Monad_Syntax" "HOL-Library.Multiset" "HOL-Library.Sublist"
begin

section \<open>Data model of doodlebug.cpp\<close>

text \<open>
  Organisms live on the C++ free store and are referred to by raw pointers, both from the
  grid and from the registry \<open>allOrgs\<close>.  The free store is an array of slots: a slot is
  either free (\<open>None\<close>) or holds a live object.  A pointer is an optional slot number,
  \<open>None\<close> being \<open>nullptr\<close>.  Reading or deleting through a pointer whose slot is free is
  undefined behaviour in C++; every operation that dereferences returns an option, and
  \<open>None\<close> is that undefined behaviour.

  The C++ \<open>int\<close> coordinates and counters are modelled as unbounded integers: the
  program only adds or subtracts 1, compares, and resets to 0.
\<close>

type_synonym addr = nat
type_synonym ptr = "addr option"

text \<open>The dynamic type of an object (what \<open>dynamic_cast\<close> and virtual dispatch inspect).\<close>

datatype species = Ant | Doodlebug

text \<open>
  Class \<open>Organism\<close> with its two derived classes.  The fields \<open>x\<close> and \<open>y\<close> carry the
  names of their getters; \<open>starveCount\<close> exists in \<open>Doodlebug\<close> objects only and is kept at
  0, never read, in an \<open>Ant\<close>; the print character is determined by the dynamic type.
\<close>

record organism =
  getX :: int
  getY :: int
  breedCount :: int
  kind :: species
  starveCount :: int

text \<open>
  Class \<open>World\<close> (fields \<open>size\<close>, \<open>age\<close>, \<open>grid\<close>, \<open>allOrgs\<close>) together with the
  environment the program runs in: the free store \<open>heap\<close>; \<open>rnd\<close>, the answers of the
  random generators (each \<open>std::shuffle\<close> call consumes one list of picks); and \<open>allocs\<close>,
  the addresses the allocator is going to try for the next calls of \<open>new\<close>.
\<close>

record world =
  size_w :: int
  age :: int
  grid :: "ptr list list"
  allOrgs :: "addr list"
  heap :: "organism option list"
  rnd :: "nat list list"
  allocs :: "nat list"

definition ANT_BREED :: int where "ANT_BREED = 3"
definition DOODLE_BREED :: int where "DOODLE_BREED = 8"
definition DOODLE_STARVE :: int where "DOODLE_STARVE = 3"

text \<open>Constructors \<open>Ant(x, y)\<close> and \<open>Doodlebug(x, y)\<close>.\<close>

definition Ant_new :: "int \<Rightarrow> int \<Rightarrow> organism" where
  "Ant_new x y = \<lparr>getX = x, getY = y, breedCount = 0, kind = Ant, starveCount = 0\<rparr>"

definition Doodlebug_new :: "int \<Rightarrow> int \<Rightarrow> organism" where
  "Doodlebug_new x y = \<lparr>getX = x, getY = y, breedCount = 0, kind = Doodlebug, starveCount = 0\<rparr>"

text \<open>
  Constructor \<open>World(size)\<close>: an empty \<open>size \<times> size\<close> grid.  The random answers and the
  allocator's plan are whatever the environment provides.
\<close>

definition World :: "int \<Rightarrow> nat list list \<Rightarrow> nat list \<Rightarrow> world" where
  "World n rs hs =
     \<lparr>size_w = n, age = 0, grid = replicate (nat n) (replicate (nat n) None),
      allOrgs = [], heap = [], rnd = rs, allocs = hs\<rparr>"

subsection \<open>The free store\<close>

text \<open>Dereferencing: \<open>None\<close> when the slot is free or was never handed out.\<close>

definition deref :: "world \<Rightarrow> addr \<Rightarrow> organism option" where
  "deref w a = (if a < length (heap w) then heap w ! a else None)"

text \<open>
  \<open>new\<close>: C++ only promises storage that no live object occupies.  The allocator takes
  its next planned address if that slot is free (re-using the storage of a deleted
  object), and a slot never used before otherwise.
\<close>

definition new_org :: "organism \<Rightarrow> world \<Rightarrow> addr \<times> world" where
  "new_org obj w =
     (let h = (case allocs w of [] \<Rightarrow> length (heap w) | h # _ \<Rightarrow> h);
          w1 = w\<lparr>allocs := tl (allocs w)\<rparr>
      in if h < length (heap w) \<and> heap w ! h = None
         then (h, w1\<lparr>heap := (heap w)[h := Some obj]\<rparr>)
         else (length (heap w), w1\<lparr>heap := heap w @ [Some obj]\<rparr>))"

text \<open>\<open>delete p\<close> on a live object frees its slot; on a dangling pointer it is undefined.\<close>

definition delete_org :: "addr \<Rightarrow> world \<Rightarrow> world option" where
  "delete_org a w =
     (case deref w a of None \<Rightarrow> None
      | Some _ \<Rightarrow> Some (w\<lparr>heap := (heap w)[a := None]\<rparr>))"

text \<open>Writing the fields of a live object through a pointer.\<close>

definition store :: "addr \<Rightarrow> organism \<Rightarrow> world \<Rightarrow> world" where
  "store a obj w = w\<lparr>heap := (heap w)[a := Some obj]\<rparr>"

definition setPos :: "addr \<Rightarrow> int \<Rightarrow> int \<Rightarrow> world \<Rightarrow> world option" where
  "setPos this nx ny w =
     do { me \<leftarrow> deref w this; Some (store this (me\<lparr>getX := nx, getY := ny\<rparr>) w) }"

definition incBreed :: "addr \<Rightarrow> world \<Rightarrow> world option" where
  "incBreed this w =
     do { me \<leftarrow> deref w this; Some (store this (me\<lparr>breedCount := breedCount me + 1\<rparr>) w) }"

definition resetBreed :: "addr \<Rightarrow> world \<Rightarrow> world option" where
  "resetBreed this w =
     do { me \<leftarrow> deref w this; Some (store this (me\<lparr>breedCount := 0\<rparr>) w) }"

text \<open>\<open>Doodlebug::starve\<close>.\<close>

definition starve :: "organism \<Rightarrow> bool" where
  "starve me = (starveCount me \<ge> DOODLE_STARVE)"

subsection \<open>The random generators\<close>

text \<open>
  \<open>std::shuffle\<close> returns some permutation of its argument.  A list of picks
  determines the permutation: each pick selects, modulo the number of elements left, the
  next element of the result.  Every permutation has such a list, and no picks leave the
  order as it is.
\<close>

fun shuffle :: "nat list \<Rightarrow> 'a list \<Rightarrow> 'a list" where
  "shuffle [] xs = xs"
| "shuffle (k # ks) xs =
     (if xs = [] then []
      else let i = k mod length xs in xs ! i # shuffle ks (take i xs @ drop (Suc i) xs))"

definition shuffle_gen :: "'a list \<Rightarrow> world \<Rightarrow> 'a list \<times> world" where
  "shuffle_gen xs w =
     (shuffle (case rnd w of [] \<Rightarrow> [] | ks # _ \<Rightarrow> ks) xs, w\<lparr>rnd := tl (rnd w)\<rparr>)"

section \<open>The occupancy grid\<close>

definition inBounds :: "world \<Rightarrow> int \<Rightarrow> int \<Rightarrow> bool" where
  "inBounds w x y = (x \<ge> 0 \<and> x < size_w w \<and> y \<ge> 0 \<and> y < size_w w)"

definition getCell :: "world \<Rightarrow> int \<Rightarrow> int \<Rightarrow> ptr" where
  "getCell w x y = (if \<not> inBounds w x y then None else grid w ! nat x ! nat y)"

definition setCell :: "world \<Rightarrow> int \<Rightarrow> int \<Rightarrow> ptr \<Rightarrow> world" where
  "setCell w x y org =
     (if \<not> inBounds w x y then w
      else w\<lparr>grid := (grid w)[nat x := (grid w ! nat x)[nat y := org]]\<rparr>)"

text \<open>\<open>World::deleteCell\<close>: removes the occupant from the registry, deletes it, clears the cell.\<close>

definition deleteCell :: "world \<Rightarrow> int \<Rightarrow> int \<Rightarrow> world option" where
  "deleteCell w x y =
     (if \<not> inBounds w x y then Some w
      else case grid w ! nat x ! nat y of
             None \<Rightarrow> Some w
           | Some toDelete \<Rightarrow>
               do { w1 \<leftarrow> delete_org toDelete (w\<lparr>allOrgs := remove1 toDelete (allOrgs w)\<rparr>);
                    Some (w1\<lparr>grid := (grid w1)[nat x := (grid w1 ! nat x)[nat y := None]]\<rparr>) })"

definition dirs :: "(int \<times> int) list" where
  "dirs = [(0, 1), (0, -1), (1, 0), (-1, 0)]"

definition getNeighbors :: "world \<Rightarrow> int \<Rightarrow> int \<Rightarrow> (int \<times> int) list" where
  "getNeighbors w x y =
     filter (\<lambda>(nx, ny). inBounds w nx ny) (map (\<lambda>(dx, dy). (x + dx, y + dy)) dirs)"

definition createAnt :: "world \<Rightarrow> int \<Rightarrow> int \<Rightarrow> world" where
  "createAnt w x y =
     (if getCell w x y = None
      then let (a, w1) = new_org (Ant_new x y) w;
               w2 = setCell w1 x y (Some a)
           in w2\<lparr>allOrgs := allOrgs w2 @ [a]\<rparr>
      else w)"

definition createDoodlebug :: "world \<Rightarrow> int \<Rightarrow> int \<Rightarrow> world" where
  "createDoodlebug w x y =
     (if getCell w x y = None
      then let (d, w1) = new_org (Doodlebug_new x y) w;
               w2 = setCell w1 x y (Some d)
           in w2\<lparr>allOrgs := allOrgs w2 @ [d]\<rparr>
      else w)"

text \<open>
  What \<open>createAnt\<close> and \<open>createDoodlebug\<close> do behind their guard, for an object
  \<open>obj\<close> built by either constructor: allocate, store the pointer in the cell, register.
\<close>

definition place :: "organism \<Rightarrow> world \<Rightarrow> int \<Rightarrow> int \<Rightarrow> world" where
  "place obj w x y =
     (let (a, w1) = new_org obj w;
          w2 = setCell w1 x y (Some a)
      in w2\<lparr>allOrgs := allOrgs w2 @ [a]\<rparr>)"

section \<open>The organisms' behaviour\<close>

text \<open>
  The scan of lines 300-311 (ant) and 380-392 (doodlebug): move \<open>this\<close> into the first
  empty cell of \<open>neighbors\<close>.  The flag is the doodlebug's \<open>moved\<close>.
\<close>

fun move_loop :: "(int \<times> int) list \<Rightarrow> addr \<Rightarrow> world \<Rightarrow> (bool \<times> world) option" where
  "move_loop [] this w = Some (False, w)"
| "move_loop ((nx, ny) # nbrs) this w =
     (if getCell w nx ny = None
      then do { me \<leftarrow> deref w this;
                let w1 = setCell w nx ny (Some this);
                let w2 = setCell w1 (getX me) (getY me) None;
                w3 \<leftarrow> setPos this nx ny w2;
                Some (True, w3) }
      else move_loop nbrs this w)"

text \<open>
  The scan of lines 355-373: eat the first neighbour that is an \<open>Ant\<close>.  The
  \<open>dynamic_cast\<close> of \<open>nullptr\<close> is \<open>nullptr\<close>; of a live object it inspects the dynamic
  type.  The flag is \<open>ate\<close>.
\<close>

fun eat_loop :: "(int \<times> int) list \<Rightarrow> addr \<Rightarrow> world \<Rightarrow> (bool \<times> world) option" where
  "eat_loop [] this w = Some (False, w)"
| "eat_loop ((nx, ny) # nbrs) this w =
     (case getCell w nx ny of
        None \<Rightarrow> eat_loop nbrs this w
      | Some occupant \<Rightarrow>
          do { occ \<leftarrow> deref w occupant;
               if kind occ = Ant
               then do { w1 \<leftarrow> deleteCell w nx ny;
                         let w2 = setCell w1 nx ny (Some this);
                         me \<leftarrow> deref w2 this;
                         let w3 = setCell w2 (getX me) (getY me) None;
                         w4 \<leftarrow> setPos this nx ny w3;
                         me4 \<leftarrow> deref w4 this;
                         Some (True, store this (me4\<lparr>starveCount := 0\<rparr>) w4) }
               else eat_loop nbrs this w })"

text \<open>
  The scan of lines 318-327 (with \<open>createAnt\<close>) and 404-413 (with \<open>createDoodlebug\<close>):
  create an offspring in the first empty cell of \<open>neighbors\<close>.
\<close>

fun breed_loop ::
  "(world \<Rightarrow> int \<Rightarrow> int \<Rightarrow> world) \<Rightarrow> (int \<times> int) list \<Rightarrow> world \<Rightarrow> world" where
  "breed_loop create [] w = w"
| "breed_loop create ((nx, ny) # nbrs) w =
     (if getCell w nx ny = None then create w nx ny else breed_loop create nbrs w)"

text \<open>The statement \<open>starveCount++\<close> of line 396.\<close>

definition starveCount_inc :: "addr \<Rightarrow> world \<Rightarrow> world option" where
  "starveCount_inc this w =
     do { me \<leftarrow> deref w this; Some (store this (me\<lparr>starveCount := starveCount me + 1\<rparr>) w) }"

text \<open>
  The breeding phase, lines 313-329 of \<open>Ant::update\<close> and 399-415 of
  \<open>Doodlebug::update\<close>: the same statements up to the threshold (\<open>ANT_BREED\<close>,
  \<open>DOODLE_BREED\<close>) and the creator (\<open>createAnt\<close>, \<open>createDoodlebug\<close>).  The vector
  \<open>neighbors\<close> is the one the earlier phases used, shuffled once more.
\<close>

definition breed_phase ::
  "int \<Rightarrow> (world \<Rightarrow> int \<Rightarrow> int \<Rightarrow> world) \<Rightarrow> (int \<times> int) list \<Rightarrow> addr \<Rightarrow> world \<Rightarrow> world option"
  where
  "breed_phase threshold create neighbors this w =
     do { w \<leftarrow> incBreed this w;
          me \<leftarrow> deref w this;
          if breedCount me \<ge> threshold
          then do { let (neighbors, w) = shuffle_gen neighbors w;
                    let w = breed_loop create neighbors w;
                    resetBreed this w }
          else Some w }"

text \<open>\<open>Ant::update\<close>.  The vector \<open>neighbors\<close> is filled once, at line 295.\<close>

definition Ant_update :: "addr \<Rightarrow> world \<Rightarrow> world option" where
  "Ant_update this w =
     do { me \<leftarrow> deref w this;
          let neighbors = getNeighbors w (getX me) (getY me);
          let (neighbors, w) = shuffle_gen neighbors w;
          (moved, w) \<leftarrow> move_loop neighbors this w;
          breed_phase ANT_BREED createAnt neighbors this w }"

text \<open>
  Lines 348-397 of \<open>Doodlebug::update\<close>: predation, then movement when nothing was eaten.
  The result carries the vector \<open>neighbors\<close> on to the breeding phase.
\<close>

definition Doodlebug_hunt ::
  "(int \<times> int) list \<Rightarrow> addr \<Rightarrow> world \<Rightarrow> ((int \<times> int) list \<times> world) option" where
  "Doodlebug_hunt neighbors this w =
     do { let (neighbors, w) = shuffle_gen neighbors w;
          (ate, w) \<leftarrow> eat_loop neighbors this w;
          if \<not> ate
          then do { let (neighbors, w) = shuffle_gen neighbors w;
                    (moved, w) \<leftarrow> move_loop neighbors this w;
                    w \<leftarrow> starveCount_inc this w;
                    Some (neighbors, w) }
          else Some (neighbors, w) }"

text \<open>\<open>Doodlebug::update\<close>.  The vector \<open>neighbors\<close> is filled once, at line 349.\<close>

definition Doodlebug_update :: "addr \<Rightarrow> world \<Rightarrow> world option" where
  "Doodlebug_update this w =
     do { me \<leftarrow> deref w this;
          if starve me then deleteCell w (getX me) (getY me)
          else do { let neighbors = getNeighbors w (getX me) (getY me);
                    (neighbors, w) \<leftarrow> Doodlebug_hunt neighbors this w;
                    breed_phase DOODLE_BREED createDoodlebug neighbors this w } }"

text \<open>The virtual call of line 265: dispatch on the dynamic type of the receiver.\<close>

definition Organism_update :: "addr \<Rightarrow> world \<Rightarrow> world option" where
  "Organism_update this w =
     do { me \<leftarrow> deref w this;
          case kind me of Ant \<Rightarrow> Ant_update this w | Doodlebug \<Rightarrow> Doodlebug_update this w }"

subsection \<open>What the scans look for, and what they do on success\<close>

text \<open>A cell is empty when \<open>getCell\<close> yields \<open>nullptr\<close> (test of lines 304, 322, 384, 408).\<close>

definition is_empty :: "world \<Rightarrow> int \<times> int \<Rightarrow> bool" where
  "is_empty w c = (getCell w (fst c) (snd c) = None)"

text \<open>A cell holds an ant when the \<open>dynamic_cast\<close> of line 361 succeeds on its occupant.\<close>

definition holds_Ant :: "world \<Rightarrow> int \<times> int \<Rightarrow> bool" where
  "holds_Ant w c =
     (case getCell w (fst c) (snd c) of None \<Rightarrow> False
      | Some p \<Rightarrow> (case deref w p of None \<Rightarrow> False | Some occ \<Rightarrow> kind occ = Ant))"

text \<open>
  The state after lines 306-308 (386-388, 366-368): \<open>this\<close>, whose fields were \<open>me\<close>,
  now sits in cell \<open>(nx, ny)\<close>.
\<close>

definition moved :: "addr \<Rightarrow> organism \<Rightarrow> int \<Rightarrow> int \<Rightarrow> world \<Rightarrow> world" where
  "moved this me nx ny w =
     store this (me\<lparr>getX := nx, getY := ny\<rparr>)
       (setCell (setCell w nx ny (Some this)) (getX me) (getY me) None)"

text \<open>The state after \<open>deleteCell(x, y)\<close> removed the live occupant \<open>a\<close> of cell \<open>(x, y)\<close>.\<close>

definition removed :: "addr \<Rightarrow> int \<Rightarrow> int \<Rightarrow> world \<Rightarrow> world" where
  "removed a x y w =
     setCell (w\<lparr>allOrgs := remove1 a (allOrgs w), heap := (heap w)[a := None]\<rparr>) x y None"

section \<open>The tick scheduler\<close>

text \<open>
  The loop of lines 259-266 over the shuffled snapshot.  Besides the world it returns
  the receivers of the calls made at line 265, in order; this list is not program state,
  it records which entries had their \<open>update\<close> invoked.
\<close>

fun update_loop :: "addr list \<Rightarrow> world \<Rightarrow> (addr list \<times> world) option" where
  "update_loop [] w = Some ([], w)"
| "update_loop (p # snapshot) w =
     (if p \<notin> set (allOrgs w) then update_loop snapshot w
      else do { w1 \<leftarrow> Organism_update p w;
                (called, w2) \<leftarrow> update_loop snapshot w1;
                Some (p # called, w2) })"

text \<open>\<open>World::update\<close>.\<close>

definition World_update :: "world \<Rightarrow> (addr list \<times> world) option" where
  "World_update w =
     (let w1 = w\<lparr>age := age w + 1\<rparr>;
          snapshot = allOrgs w1;
          (snapshot, w2) = shuffle_gen snapshot w1
      in update_loop snapshot w2)"

section \<open>Consistency of grid and registry\<close>

definition wf_grid :: "world \<Rightarrow> bool" where
  "wf_grid w =
     (0 \<le> size_w w \<and> length (grid w) = nat (size_w w) \<and>
      (\<forall>row \<in> set (grid w). length row = nat (size_w w)))"

text \<open>
  The registry holds no pointer twice; every registered pointer refers to a live object
  whose recorded position is in bounds and whose grid cell holds that very pointer; and
  the occupant of every non-empty cell is registered, live, and records that cell as its
  position.  Hence no organism occupies two cells, and grid and registry describe the
  same population.
\<close>

definition consistent :: "world \<Rightarrow> bool" where
  "consistent w =
     (wf_grid w \<and> distinct (allOrgs w) \<and>
      (\<forall>a \<in> set (allOrgs w).
         case deref w a of None \<Rightarrow> False
         | Some org \<Rightarrow> inBounds w (getX org) (getY org) \<and>
                       getCell w (getX org) (getY org) = Some a) \<and>
      (\<forall>x \<in> {0..<size_w w}. \<forall>y \<in> {0..<size_w w}.
         case getCell w x y of None \<Rightarrow> True
         | Some a \<Rightarrow> a \<in> set (allOrgs w) \<and>
                     (case deref w a of None \<Rightarrow> False
                      | Some org \<Rightarrow> getX org = x \<and> getY org = y)))"

text \<open>
  The states the program can be in between two ticks: a freshly constructed world,
  populated cell by cell (\<open>World::initialize\<close> runs the body of \<open>createDoodlebug\<close> and of
  \<open>createAnt\<close> at coordinates \<open>rand() % size\<close>, which are in bounds), then advanced by
  \<open>World::update\<close>.  A negative size makes the vector constructor throw, so construction
  succeeds for sizes from 0 on only.
\<close>

inductive reachable :: "world \<Rightarrow> bool" where
  constructed: "0 \<le> n \<Longrightarrow> reachable (World n rs hs)"
| placed_ant: "reachable w \<Longrightarrow> inBounds w x y \<Longrightarrow> reachable (createAnt w x y)"
| placed_doodlebug: "reachable w \<Longrightarrow> inBounds w x y \<Longrightarrow> reachable (createDoodlebug w x y)"
| ticked: "reachable w \<Longrightarrow> World_update w = Some (called, w') \<Longrightarrow> reachable w'"

code_pred reachable .

section \<open>A run in which the allocator re-uses an address\<close>

text \<open>
  A \<open>3 \<times> 3\<close> world with a doodlebug at \<open>(0, 1)\<close> and ants at \<open>(2, 2)\<close> and \<open>(2, 0)\<close>,
  placed in this order, so that their addresses are 0, 1 and 2.  All shuffles leave the
  order as it is.  The allocator's plan only matters at the fourth \<open>new\<close>: it then hands
  out the address 2 again, provided the object that lived there has been deleted.
\<close>

definition reuse_start :: world where
  "reuse_start = createAnt (createAnt (createDoodlebug (World 3 [] [0, 1, 2, 2]) 0 1) 2 2) 2 0"

text \<open>The world after the first and after the second tick.\<close>

definition reuse_tick1 :: world where
  "reuse_tick1 =
     \<lparr>size_w = 3, age = 1,
      grid = [[None, None, Some 0], [Some 2, None, None], [None, Some 1, None]],
      allOrgs = [0, 1, 2],
      heap = [Some \<lparr>getX = 0, getY = 2, breedCount = 1, kind = Doodlebug, starveCount = 1\<rparr>,
              Some \<lparr>getX = 2, getY = 1, breedCount = 1, kind = Ant, starveCount = 0\<rparr>,
              Some \<lparr>getX = 1, getY = 0, breedCount = 1, kind = Ant, starveCount = 0\<rparr>],
      rnd = [], allocs = [2]\<rparr>"

definition reuse_tick2 :: world where
  "reuse_tick2 =
     \<lparr>size_w = 3, age = 2,
      grid = [[None, Some 0, None], [None, Some 2, None], [None, None, Some 1]],
      allOrgs = [0, 1, 2],
      heap = [Some \<lparr>getX = 0, getY = 1, breedCount = 2, kind = Doodlebug, starveCount = 2\<rparr>,
              Some \<lparr>getX = 2, getY = 2, breedCount = 2, kind = Ant, starveCount = 0\<rparr>,
              Some \<lparr>getX = 1, getY = 1, breedCount = 2, kind = Ant, starveCount = 0\<rparr>],
      rnd = [], allocs = [2]\<rparr>"

text \<open>
  Within the third tick: the world after the doodlebug has eaten the ant at address 2,
  and then after the ant at address 1 has bred.
\<close>

definition reuse_eaten :: world where
  "reuse_eaten =
     \<lparr>size_w = 3, age = 3,
      grid = [[None, None, None], [None, Some 0, None], [None, None, Some 1]],
      allOrgs = [0, 1],
      heap = [Some \<lparr>getX = 1, getY = 1, breedCount = 3, kind = Doodlebug, starveCount = 0\<rparr>,
              Some \<lparr>getX = 2, getY = 2, breedCount = 2, kind = Ant, starveCount = 0\<rparr>,
              None],
      rnd = [], allocs = [2]\<rparr>"

definition reuse_born :: world where
  "reuse_born =
     \<lparr>size_w = 3, age = 3,
      grid = [[None, None, None], [None, Some 0, Some 2], [None, Some 1, None]],
      allOrgs = [0, 1, 2],
      heap = [Some \<lparr>getX = 1, getY = 1, breedCount = 3, kind = Doodlebug, starveCount = 0\<rparr>,
              Some \<lparr>getX = 2, getY = 1, breedCount = 0, kind = Ant, starveCount = 0\<rparr>,
              Some \<lparr>getX = 1, getY = 2, breedCount = 0, kind = Ant, starveCount = 0\<rparr>],
      rnd = [], allocs = []\<rparr>"

text \<open>The world after the third tick.\<close>

definition reuse_tick3 :: world where
  "reuse_tick3 =
     \<lparr>size_w = 3, age = 3,
      grid = [[None, None, None], [None, Some 0, None], [None, Some 1, Some 2]],
      allOrgs = [0, 1, 2],
      heap = [Some \<lparr>getX = 1, getY = 1, breedCount = 3, kind = Doodlebug, starveCount = 0\<rparr>,
              Some \<lparr>getX = 2, getY = 1, breedCount = 0, kind = Ant, starveCount = 0\<rparr>,
              Some \<lparr>getX = 2, getY = 2, breedCount = 1, kind = Ant, starveCount = 0\<rparr>],
      rnd = [], allocs = []\<rparr>"

section \<open>Basic facts\<close>

subsection \<open>Shuffling permutes\<close>

lemma mset_shuffle: "mset (shuffle ks xs) = mset xs"
proof (induction ks xs rule: shuffle.induct)
  case (1 xs)
  show ?case by simp
next
  case (2 k ks xs)
  show ?case
  proof (cases "xs = []")
    case True
    then show ?thesis by simp
  next
    case False
    define i where "i = k mod length xs"
    have i: "i < length xs" using False by (simp add: i_def)
    have "mset xs = mset (take i xs @ xs ! i # drop (Suc i) xs)"
      using i by (simp add: id_take_nth_drop [symmetric])
    also have "\<dots> = add_mset (xs ! i) (mset (take i xs @ drop (Suc i) xs))"
      by simp
    finally show ?thesis
      using False 2 by (simp add: i_def Let_def)
  qed
qed

lemma set_shuffle [simp]: "set (shuffle ks xs) = set xs"
  using mset_shuffle [of ks xs] by (metis set_mset_mset)

lemma distinct_shuffle [simp]: "distinct (shuffle ks xs) = distinct xs"
  using mset_shuffle [of ks xs] by (metis mset_eq_imp_distinct_iff)

lemma length_shuffle [simp]: "length (shuffle ks xs) = length xs"
  using mset_shuffle [of ks xs] by (metis size_mset)

text \<open>Every permutation is the result of some list of picks.\<close>

lemma shuffle_any_permutation: "mset ys = mset xs \<Longrightarrow> \<exists>ks. shuffle ks xs = ys"
proof (induction ys arbitrary: xs)
  case Nil
  then have "shuffle [] xs = []" by simp
  then show ?case by blast
next
  case (Cons y ys)
  have "y \<in> set xs" using Cons.prems by (metis list.set_intros(1) set_mset_mset)
  then obtain i where i: "i < length xs" "xs ! i = y" by (auto simp: in_set_conv_nth)
  let ?xs' = "take i xs @ drop (Suc i) xs"
  have "mset xs = mset (take i xs @ xs ! i # drop (Suc i) xs)"
    using i(1) by (simp add: id_take_nth_drop [symmetric])
  then have "mset xs = add_mset y (mset ?xs')" using i(2) by simp
  with Cons.prems have "mset ys = mset ?xs'" by simp
  from Cons.IH [OF this] obtain ks where ks: "shuffle ks ?xs' = ys" by blast
  have "xs \<noteq> []" using i(1) by auto
  then have "shuffle (i # ks) xs = y # ys" using i ks by (simp add: Let_def)
  then show ?case by blast
qed

subsection \<open>Projections of the primitive operations\<close>

lemma setCell_fields [simp]:
  "size_w (setCell w x y v) = size_w w"
  "allOrgs (setCell w x y v) = allOrgs w"
  "heap (setCell w x y v) = heap w"
  "rnd (setCell w x y v) = rnd w"
  "allocs (setCell w x y v) = allocs w"
  "age (setCell w x y v) = age w"
  by (simp_all add: setCell_def)

lemma store_fields [simp]:
  "size_w (store a obj w) = size_w w"
  "allOrgs (store a obj w) = allOrgs w"
  "grid (store a obj w) = grid w"
  "rnd (store a obj w) = rnd w"
  "allocs (store a obj w) = allocs w"
  "age (store a obj w) = age w"
  by (simp_all add: store_def)

lemma inBounds_cong: "size_w w' = size_w w \<Longrightarrow> inBounds w' x y = inBounds w x y"
  by (simp add: inBounds_def)

lemma inBounds_setCell [simp]: "inBounds (setCell w x y v) x' y' = inBounds w x' y'"
  by (simp add: inBounds_def)

lemma inBounds_store [simp]: "inBounds (store a obj w) x y = inBounds w x y"
  by (simp add: inBounds_def)

lemma deref_setCell [simp]: "deref (setCell w x y v) a = deref w a"
  by (simp add: deref_def)

lemma getCell_store [simp]: "getCell (store a obj w) x y = getCell w x y"
  by (simp add: getCell_def)

lemma deref_store:
  "deref w a = Some me \<Longrightarrow> deref (store a obj w) b = (if b = a then Some obj else deref w b)"
  by (auto simp: deref_def store_def split: if_splits)

lemma wf_grid_setCell: "wf_grid w \<Longrightarrow> wf_grid (setCell w x y v)"
proof (cases "inBounds w x y")
  case False
  assume "wf_grid w"
  with False show ?thesis by (simp add: setCell_def)
next
  case True
  assume wf: "wf_grid w"
  then have x: "nat x < length (grid w)"
    using True by (simp add: wf_grid_def inBounds_def)
  have "length row = nat (size_w w)"
    if "row \<in> set ((grid w)[nat x := (grid w ! nat x)[nat y := v]])" for row
  proof -
    from that have "row = (grid w ! nat x)[nat y := v] \<or> row \<in> set (grid w)"
      using set_update_subset_insert [of "grid w" "nat x"] by blast
    moreover have "grid w ! nat x \<in> set (grid w)" using x by simp
    ultimately show ?thesis using wf by (auto simp: wf_grid_def)
  qed
  then show ?thesis
    using wf True by (simp add: wf_grid_def setCell_def)
qed

lemma wf_grid_store [simp]: "wf_grid (store a obj w) = wf_grid w"
  by (simp add: wf_grid_def)

lemma getCell_setCell:
  assumes "wf_grid w"
  shows "getCell (setCell w x y v) x' y' =
           (if inBounds w x y \<and> x' = x \<and> y' = y then v else getCell w x' y')"
proof (cases "inBounds w x y")
  case False
  then show ?thesis by (simp add: setCell_def)
next
  case True
  note xy = True
  show ?thesis
  proof (cases "inBounds w x' y'")
    case False
    then have "\<not> inBounds (setCell w x y v) x' y'" by simp
    then have "getCell (setCell w x y v) x' y' = None"
      unfolding getCell_def by simp
    moreover have "getCell w x' y' = None" using False by (simp add: getCell_def)
    moreover have "\<not> (x' = x \<and> y' = y)" using False xy by auto
    ultimately show ?thesis by auto
  next
    case True
    have b: "nat x < length (grid w)" "nat x' < length (grid w)"
      using assms xy True by (simp_all add: wf_grid_def inBounds_def)
    then have "grid w ! nat x \<in> set (grid w)" "grid w ! nat x' \<in> set (grid w)"
      by simp_all
    then have l: "nat y < length (grid w ! nat x)" "nat y' < length (grid w ! nat x')"
      using assms xy True by (simp_all add: wf_grid_def inBounds_def)
    have e: "nat x' = nat x \<longleftrightarrow> x' = x" "nat y' = nat y \<longleftrightarrow> y' = y"
      using True xy by (auto simp: inBounds_def)
    have "getCell (setCell w x y v) x' y' =
            (grid w)[nat x := (grid w ! nat x)[nat y := v]] ! nat x' ! nat y'"
      using True xy by (simp add: getCell_def setCell_def inBounds_def)
    also have "\<dots> = (if x' = x \<and> y' = y then v else grid w ! nat x' ! nat y')"
      using b l e by (auto simp: nth_list_update)
    finally show ?thesis
      using True xy by (simp add: getCell_def)
  qed
qed

lemma record_update_views [simp]:
  "inBounds (w\<lparr>allOrgs := l\<rparr>) x y = inBounds w x y"
  "inBounds (w\<lparr>heap := h\<rparr>) x y = inBounds w x y"
  "inBounds (w\<lparr>rnd := r\<rparr>) x y = inBounds w x y"
  "inBounds (w\<lparr>allocs := al\<rparr>) x y = inBounds w x y"
  "inBounds (w\<lparr>age := n\<rparr>) x y = inBounds w x y"
  "getCell (w\<lparr>allOrgs := l\<rparr>) x y = getCell w x y"
  "getCell (w\<lparr>heap := h\<rparr>) x y = getCell w x y"
  "getCell (w\<lparr>rnd := r\<rparr>) x y = getCell w x y"
  "getCell (w\<lparr>allocs := al\<rparr>) x y = getCell w x y"
  "getCell (w\<lparr>age := n\<rparr>) x y = getCell w x y"
  "deref (w\<lparr>allOrgs := l\<rparr>) a = deref w a"
  "deref (w\<lparr>rnd := r\<rparr>) a = deref w a"
  "deref (w\<lparr>allocs := al\<rparr>) a = deref w a"
  "deref (w\<lparr>age := n\<rparr>) a = deref w a"
  "wf_grid (w\<lparr>allOrgs := l\<rparr>) = wf_grid w"
  "wf_grid (w\<lparr>heap := h\<rparr>) = wf_grid w"
  "wf_grid (w\<lparr>rnd := r\<rparr>) = wf_grid w"
  "wf_grid (w\<lparr>allocs := al\<rparr>) = wf_grid w"
  "wf_grid (w\<lparr>age := n\<rparr>) = wf_grid w"
  by (simp_all add: inBounds_def getCell_def deref_def wf_grid_def)

lemma getCell_Some_inBounds: "getCell w x y = Some a \<Longrightarrow> inBounds w x y"
  by (simp add: getCell_def split: if_splits)

lemma deref_free:
  "deref (w\<lparr>heap := (heap w)[a := None]\<rparr>) b = (if b = a then None else deref w b)"
  by (simp add: deref_def)

subsection \<open>Allocation\<close>

lemma new_org_fields:
  assumes "new_org obj w = (a, w1)"
  shows "size_w w1 = size_w w" "grid w1 = grid w" "allOrgs w1 = allOrgs w"
    "rnd w1 = rnd w" "age w1 = age w" "allocs w1 = tl (allocs w)"
  using assms by (auto simp: new_org_def Let_def split: if_splits)

lemma new_org_fresh:
  assumes "new_org obj w = (a, w1)"
  shows "deref w a = None"
  using assms by (auto simp: new_org_def Let_def deref_def split: if_splits)

lemma new_org_deref:
  assumes "new_org obj w = (a, w1)"
  shows "deref w1 b = (if b = a then Some obj else deref w b)"
  using assms
  by (auto simp: new_org_def Let_def deref_def nth_append split: if_splits)

lemma new_org_views:
  assumes "new_org obj w = (a, w1)"
  shows "inBounds w1 x y = inBounds w x y" "getCell w1 x y = getCell w x y"
    "wf_grid w1 = wf_grid w"
  using new_org_fields [OF assms]
  by (simp_all add: inBounds_def getCell_def wf_grid_def)

text \<open>The common body of \<open>createAnt\<close> and \<open>createDoodlebug\<close> behind their guard.\<close>

lemma createAnt_place:
  "createAnt w x y = (if getCell w x y = None then place (Ant_new x y) w x y else w)"
  by (simp add: createAnt_def place_def)

lemma createDoodlebug_place:
  "createDoodlebug w x y =
     (if getCell w x y = None then place (Doodlebug_new x y) w x y else w)"
  by (simp add: createDoodlebug_def place_def)

lemma place_effect:
  assumes "wf_grid w" "inBounds w x y"
  obtains a where
    "deref w a = None"
    "allOrgs (place obj w x y) = allOrgs w @ [a]"
    "size_w (place obj w x y) = size_w w"
    "rnd (place obj w x y) = rnd w"
    "age (place obj w x y) = age w"
    "wf_grid (place obj w x y)"
    "\<And>b. deref (place obj w x y) b = (if b = a then Some obj else deref w b)"
    "\<And>x' y'. getCell (place obj w x y) x' y' =
               (if x' = x \<and> y' = y then Some a else getCell w x' y')"
proof -
  obtain a w1 where n: "new_org obj w = (a, w1)" by (cases "new_org obj w")
  have p: "place obj w x y = (setCell w1 x y (Some a))\<lparr>allOrgs := allOrgs w1 @ [a]\<rparr>"
    using n by (simp add: place_def)
  have wf1: "wf_grid w1" and ib1: "inBounds w1 x y"
    using assms new_org_views [OF n] by simp_all
  show thesis
  proof (rule that [of a])
    show "deref w a = None" by (rule new_org_fresh [OF n])
    show "allOrgs (place obj w x y) = allOrgs w @ [a]"
      by (simp add: p new_org_fields [OF n])
    show "size_w (place obj w x y) = size_w w"
      by (simp add: p new_org_fields [OF n])
    show "rnd (place obj w x y) = rnd w"
      by (simp add: p new_org_fields [OF n])
    show "age (place obj w x y) = age w"
      by (simp add: p new_org_fields [OF n])
    show "wf_grid (place obj w x y)"
      by (simp add: p wf_grid_setCell wf1)
    show "deref (place obj w x y) b = (if b = a then Some obj else deref w b)" for b
      by (simp add: p new_org_deref [OF n])
    show "getCell (place obj w x y) x' y' =
            (if x' = x \<and> y' = y then Some a else getCell w x' y')" for x' y'
      using ib1 by (simp add: p getCell_setCell [OF wf1] new_org_views [OF n])
  qed
qed

subsection \<open>Removal\<close>

lemma deleteCell_occupied:
  assumes "getCell w x y = Some a" "deref w a = Some oa"
  shows "deleteCell w x y =
           Some (setCell (w\<lparr>allOrgs := remove1 a (allOrgs w),
                            heap := (heap w)[a := None]\<rparr>) x y None)"
proof -
  have ib: "inBounds w x y" using assms(1) by (rule getCell_Some_inBounds)
  then have g: "grid w ! nat x ! nat y = Some a"
    using assms(1) by (simp add: getCell_def)
  have "deref (w\<lparr>allOrgs := remove1 a (allOrgs w)\<rparr>) a = Some oa"
    using assms(2) by simp
  then show ?thesis
    using ib g by (simp add: deleteCell_def delete_org_def setCell_def inBounds_def)
qed

subsection \<open>Consistency without bounded quantifiers\<close>

lemma consistent_iff:
  "consistent w \<longleftrightarrow>
     wf_grid w \<and> distinct (allOrgs w) \<and>
     (\<forall>a \<in> set (allOrgs w). \<exists>org. deref w a = Some org \<and>
         inBounds w (getX org) (getY org) \<and> getCell w (getX org) (getY org) = Some a) \<and>
     (\<forall>x y a. getCell w x y = Some a \<longrightarrow>
         a \<in> set (allOrgs w) \<and> (\<exists>org. deref w a = Some org \<and> getX org = x \<and> getY org = y))"
  (is "?L \<longleftrightarrow> ?R")
proof
  assume l: ?L
  have "a \<in> set (allOrgs w) \<and> (\<exists>org. deref w a = Some org \<and> getX org = x \<and> getY org = y)"
    if c: "getCell w x y = Some a" for x y a
  proof -
    have "inBounds w x y" using c by (rule getCell_Some_inBounds)
    then have "x \<in> {0..<size_w w}" "y \<in> {0..<size_w w}" by (simp_all add: inBounds_def)
    with l have "case getCell w x y of None \<Rightarrow> True
         | Some a \<Rightarrow> a \<in> set (allOrgs w) \<and>
                     (case deref w a of None \<Rightarrow> False
                      | Some org \<Rightarrow> getX org = x \<and> getY org = y)"
      unfolding consistent_def by blast
    then show ?thesis using c by (simp split: option.splits)
  qed
  moreover have "\<exists>org. deref w a = Some org \<and>
         inBounds w (getX org) (getY org) \<and> getCell w (getX org) (getY org) = Some a"
    if "a \<in> set (allOrgs w)" for a
    using l that unfolding consistent_def by (auto split: option.splits)
  ultimately show ?R using l unfolding consistent_def by blast
next
  assume r: ?R
  have "case deref w a of None \<Rightarrow> False
         | Some org \<Rightarrow> inBounds w (getX org) (getY org) \<and>
                       getCell w (getX org) (getY org) = Some a"
    if "a \<in> set (allOrgs w)" for a
  proof -
    from r that obtain org where "deref w a = Some org"
      "inBounds w (getX org) (getY org)" "getCell w (getX org) (getY org) = Some a"
      by blast
    then show ?thesis by simp
  qed
  moreover have "case getCell w x y of None \<Rightarrow> True
         | Some a \<Rightarrow> a \<in> set (allOrgs w) \<and>
                     (case deref w a of None \<Rightarrow> False
                      | Some org \<Rightarrow> getX org = x \<and> getY org = y)" for x y
  proof (cases "getCell w x y")
    case None
    then show ?thesis by simp
  next
    case (Some a)
    with r obtain org where "a \<in> set (allOrgs w)" "deref w a = Some org"
      "getX org = x" "getY org = y"
      by blast
    with Some show ?thesis by simp
  qed
  ultimately show ?L using r unfolding consistent_def by blast
qed

lemma consistent_registered:
  assumes "consistent w" "a \<in> set (allOrgs w)"
  obtains org where "deref w a = Some org" "inBounds w (getX org) (getY org)"
    "getCell w (getX org) (getY org) = Some a"
  using assms unfolding consistent_iff by blast

lemma consistent_occupant:
  assumes "consistent w" "getCell w x y = Some a"
  obtains org where "a \<in> set (allOrgs w)" "deref w a = Some org" "getX org = x" "getY org = y"
  using assms unfolding consistent_iff by blast

lemma consistent_wf: "consistent w \<Longrightarrow> wf_grid w"
  by (simp add: consistent_def)

lemma consistent_env [simp]:
  "consistent (w\<lparr>rnd := r\<rparr>) = consistent w"
  "consistent (w\<lparr>age := n\<rparr>) = consistent w"
  "consistent (w\<lparr>allocs := al\<rparr>) = consistent w"
  by (simp_all add: consistent_iff)

subsection \<open>Steps that keep grid and registry consistent\<close>

lemma consistentI:
  assumes "wf_grid w" "distinct (allOrgs w)"
    "\<And>a. a \<in> set (allOrgs w) \<Longrightarrow>
       \<exists>org. deref w a = Some org \<and> inBounds w (getX org) (getY org) \<and>
             getCell w (getX org) (getY org) = Some a"
    "\<And>x y a. getCell w x y = Some a \<Longrightarrow>
       a \<in> set (allOrgs w) \<and> (\<exists>org. deref w a = Some org \<and> getX org = x \<and> getY org = y)"
  shows "consistent w"
  unfolding consistent_iff using assms by blast

lemma consistent_store:
  assumes c: "consistent w" and d: "deref w a = Some me"
    and p: "getX me' = getX me" "getY me' = getY me"
  shows "consistent (store a me' w)"
proof (rule consistentI)
  have dr: "deref (store a me' w) b = (if b = a then Some me' else deref w b)" for b
    by (rule deref_store [OF d])
  show "wf_grid (store a me' w)" using c by (simp add: consistent_wf)
  show "distinct (allOrgs (store a me' w))" using c by (simp add: consistent_def)
  show "\<exists>org. deref (store a me' w) b = Some org \<and>
      inBounds (store a me' w) (getX org) (getY org) \<and>
      getCell (store a me' w) (getX org) (getY org) = Some b"
    if "b \<in> set (allOrgs (store a me' w))" for b
  proof -
    from that have "b \<in> set (allOrgs w)" by simp
    with c obtain ob where ob: "deref w b = Some ob" "inBounds w (getX ob) (getY ob)"
      "getCell w (getX ob) (getY ob) = Some b"
      by (rule consistent_registered)
    then show ?thesis using d p by (cases "b = a") (simp_all add: dr)
  qed
  show "b \<in> set (allOrgs (store a me' w)) \<and>
      (\<exists>org. deref (store a me' w) b = Some org \<and> getX org = x \<and> getY org = y)"
    if "getCell (store a me' w) x y = Some b" for x y b
  proof -
    from that have "getCell w x y = Some b" by simp
    with c obtain ob where ob: "b \<in> set (allOrgs w)" "deref w b = Some ob"
      "getX ob = x" "getY ob = y"
      by (rule consistent_occupant)
    then show ?thesis using d p by (cases "b = a") (simp_all add: dr)
  qed
qed

lemma consistent_moved:
  assumes c: "consistent w" and a: "a \<in> set (allOrgs w)" and d: "deref w a = Some me"
    and e: "getCell w nx ny = None" and ib: "inBounds w nx ny"
  shows "consistent (store a (me\<lparr>getX := nx, getY := ny\<rparr>)
           (setCell (setCell w nx ny (Some a)) (getX me) (getY me) None))"
proof -
  define w' where "w' = store a (me\<lparr>getX := nx, getY := ny\<rparr>)
           (setCell (setCell w nx ny (Some a)) (getX me) (getY me) None)"
  have wf: "wf_grid w" using c by (rule consistent_wf)
  obtain org where "deref w a = Some org" "inBounds w (getX org) (getY org)"
    "getCell w (getX org) (getY org) = Some a"
    using c a by (rule consistent_registered)
  with d have me: "inBounds w (getX me) (getY me)" "getCell w (getX me) (getY me) = Some a"
    by simp_all
  have ne: "\<not> (nx = getX me \<and> ny = getY me)" using e me by auto
  have dr: "deref w' b = (if b = a then Some (me\<lparr>getX := nx, getY := ny\<rparr>) else deref w b)"
    for b
    using d by (simp add: w'_def deref_store)
  have gc: "getCell w' x y =
      (if x = getX me \<and> y = getY me then None
       else if x = nx \<and> y = ny then Some a else getCell w x y)" for x y
    using me ib by (simp add: w'_def getCell_setCell wf wf_grid_setCell)
  have wf': "wf_grid w'" by (simp add: w'_def wf wf_grid_setCell)
  have al: "allOrgs w' = allOrgs w" by (simp add: w'_def)
  have ibs: "inBounds w' x y = inBounds w x y" for x y by (simp add: w'_def)
  have "consistent w'"
  proof (rule consistentI)
    show "wf_grid w'" by (rule wf')
    show "distinct (allOrgs w')" using c by (simp add: al consistent_def)
    show "\<exists>org. deref w' b = Some org \<and> inBounds w' (getX org) (getY org) \<and>
        getCell w' (getX org) (getY org) = Some b" if b: "b \<in> set (allOrgs w')" for b
    proof (cases "b = a")
      case True
      then show ?thesis using ne ib by (simp add: dr gc ibs)
    next
      case False
      from b have "b \<in> set (allOrgs w)" by (simp add: al)
      with c obtain ob where ob: "deref w b = Some ob" "inBounds w (getX ob) (getY ob)"
        "getCell w (getX ob) (getY ob) = Some b"
        by (rule consistent_registered)
      have "\<not> (getX ob = getX me \<and> getY ob = getY me)" using ob me False by auto
      moreover have "\<not> (getX ob = nx \<and> getY ob = ny)" using ob e by auto
      ultimately show ?thesis using False ob by (simp add: dr gc ibs)
    qed
    show "b \<in> set (allOrgs w') \<and>
        (\<exists>org. deref w' b = Some org \<and> getX org = x \<and> getY org = y)"
      if g: "getCell w' x y = Some b" for x y b
    proof (cases "x = nx \<and> y = ny")
      case True
      then have "b = a" using g ne by (simp add: gc)
      then show ?thesis using a True by (simp add: dr al)
    next
      case False
      then have g0: "getCell w x y = Some b" and nm: "\<not> (x = getX me \<and> y = getY me)"
        using g by (auto simp: gc split: if_splits)
      from c g0 obtain ob where ob: "b \<in> set (allOrgs w)" "deref w b = Some ob"
        "getX ob = x" "getY ob = y"
        by (rule consistent_occupant)
      have "b \<noteq> a" using ob d nm by auto
      then show ?thesis using ob by (simp add: dr al)
    qed
  qed
  then show ?thesis by (simp add: w'_def)
qed

lemma consistent_place:
  assumes c: "consistent w" and ib: "inBounds w x y" and e: "getCell w x y = None"
    and p: "getX obj = x" "getY obj = y"
  shows "consistent (place obj w x y)"
proof (rule place_effect [OF consistent_wf [OF c] ib, of obj])
  fix a
  assume f: "deref w a = None"
    and al: "allOrgs (place obj w x y) = allOrgs w @ [a]"
    and sz: "size_w (place obj w x y) = size_w w"
    and wf': "wf_grid (place obj w x y)"
    and dr: "\<And>b. deref (place obj w x y) b = (if b = a then Some obj else deref w b)"
    and gc: "\<And>x' y'. getCell (place obj w x y) x' y' =
               (if x' = x \<and> y' = y then Some a else getCell w x' y')"
  have ibs: "inBounds (place obj w x y) x' y' = inBounds w x' y'" for x' y'
    by (simp add: inBounds_def sz)
  have na: "a \<notin> set (allOrgs w)"
  proof
    assume "a \<in> set (allOrgs w)"
    with c obtain org where "deref w a = Some org" by (rule consistent_registered)
    with f show False by simp
  qed
  show "consistent (place obj w x y)"
  proof (rule consistentI)
    show "wf_grid (place obj w x y)" by (rule wf')
    show "distinct (allOrgs (place obj w x y))" using c na by (simp add: al consistent_def)
    show "\<exists>org. deref (place obj w x y) b = Some org \<and>
        inBounds (place obj w x y) (getX org) (getY org) \<and>
        getCell (place obj w x y) (getX org) (getY org) = Some b"
      if b: "b \<in> set (allOrgs (place obj w x y))" for b
    proof (cases "b = a")
      case True
      then show ?thesis using p ib by (simp add: dr gc ibs)
    next
      case False
      with b have "b \<in> set (allOrgs w)" by (simp add: al)
      with c obtain ob where ob: "deref w b = Some ob" "inBounds w (getX ob) (getY ob)"
        "getCell w (getX ob) (getY ob) = Some b"
        by (rule consistent_registered)
      have "\<not> (getX ob = x \<and> getY ob = y)" using ob e by auto
      then show ?thesis using False ob by (simp add: dr gc ibs)
    qed
    show "b \<in> set (allOrgs (place obj w x y)) \<and>
        (\<exists>org. deref (place obj w x y) b = Some org \<and> getX org = x' \<and> getY org = y')"
      if g: "getCell (place obj w x y) x' y' = Some b" for x' y' b
    proof (cases "x' = x \<and> y' = y")
      case True
      then have "b = a" using g by (simp add: gc)
      then show ?thesis using True p by (simp add: dr al)
    next
      case False
      then have g0: "getCell w x' y' = Some b" using g by (auto simp: gc split: if_splits)
      from c g0 obtain ob where ob: "b \<in> set (allOrgs w)" "deref w b = Some ob"
        "getX ob = x'" "getY ob = y'"
        by (rule consistent_occupant)
      have "b \<noteq> a" using ob f by auto
      then show ?thesis using ob by (simp add: dr al)
    qed
  qed
qed

lemma consistent_removed:
  assumes c: "consistent w" and g: "getCell w x y = Some a"
  shows "consistent (setCell (w\<lparr>allOrgs := remove1 a (allOrgs w),
                                 heap := (heap w)[a := None]\<rparr>) x y None)"
proof -
  define w' where "w' = setCell (w\<lparr>allOrgs := remove1 a (allOrgs w),
                                 heap := (heap w)[a := None]\<rparr>) x y None"
  have wf: "wf_grid w" using c by (rule consistent_wf)
  have ib: "inBounds w x y" using g by (rule getCell_Some_inBounds)
  have d: "distinct (allOrgs w)" using c by (simp add: consistent_def)
  obtain oa where oa: "a \<in> set (allOrgs w)" "deref w a = Some oa" "getX oa = x" "getY oa = y"
    using c g by (rule consistent_occupant)
  have al: "allOrgs w' = remove1 a (allOrgs w)" by (simp add: w'_def)
  have als: "set (allOrgs w') = set (allOrgs w) - {a}" using d by (simp add: al)
  have dr: "deref w' b = (if b = a then None else deref w b)" for b
    by (simp add: w'_def deref_def)
  have gc: "getCell w' x' y' = (if x' = x \<and> y' = y then None else getCell w x' y')"
    for x' y'
    using ib by (simp add: w'_def getCell_setCell wf)
  have wf': "wf_grid w'" by (simp add: w'_def wf wf_grid_setCell)
  have ibs: "inBounds w' x' y' = inBounds w x' y'" for x' y' by (simp add: w'_def)
  have "consistent w'"
  proof (rule consistentI)
    show "wf_grid w'" by (rule wf')
    show "distinct (allOrgs w')" using d by (simp add: al)
    show "\<exists>org. deref w' b = Some org \<and> inBounds w' (getX org) (getY org) \<and>
        getCell w' (getX org) (getY org) = Some b" if b: "b \<in> set (allOrgs w')" for b
    proof -
      from b have ba: "b \<noteq> a" and bw: "b \<in> set (allOrgs w)" using als by auto
      from c bw obtain ob where ob: "deref w b = Some ob" "inBounds w (getX ob) (getY ob)"
        "getCell w (getX ob) (getY ob) = Some b"
        by (rule consistent_registered)
      have "\<not> (getX ob = x \<and> getY ob = y)" using ob g ba by auto
      then show ?thesis using ba ob by (simp add: dr gc ibs)
    qed
    show "b \<in> set (allOrgs w') \<and>
        (\<exists>org. deref w' b = Some org \<and> getX org = x' \<and> getY org = y')"
      if g': "getCell w' x' y' = Some b" for x' y' b
    proof -
      from g' have nm: "\<not> (x' = x \<and> y' = y)" and g0: "getCell w x' y' = Some b"
        by (auto simp: gc split: if_splits)
      from c g0 obtain ob where ob: "b \<in> set (allOrgs w)" "deref w b = Some ob"
        "getX ob = x'" "getY ob = y'"
        by (rule consistent_occupant)
      have "b \<noteq> a" using ob oa nm by auto
      then show ?thesis using ob als by (simp add: dr)
    qed
  qed
  then show ?thesis by (simp add: w'_def)
qed

lemma getCell_World [simp]: "getCell (World n rs hs) x y = None"
  by (simp add: getCell_def World_def inBounds_def)

lemma consistent_World: "0 \<le> n \<Longrightarrow> consistent (World n rs hs)"
proof (rule consistentI)
  assume "0 \<le> n"
  then show "wf_grid (World n rs hs)" by (simp add: wf_grid_def World_def)
  show "distinct (allOrgs (World n rs hs))" by (simp add: World_def)
  show "\<exists>org. deref (World n rs hs) a = Some org \<and>
      inBounds (World n rs hs) (getX org) (getY org) \<and>
      getCell (World n rs hs) (getX org) (getY org) = Some a"
    if "a \<in> set (allOrgs (World n rs hs))" for a
    using that by (simp add: World_def)
  show "a \<in> set (allOrgs (World n rs hs)) \<and>
      (\<exists>org. deref (World n rs hs) a = Some org \<and> getX org = x \<and> getY org = y)"
    if "getCell (World n rs hs) x y = Some a" for x y a
    using that by simp
qed

subsection \<open>Views of a move and of a removal\<close>

lemma moved_fields [simp]:
  "size_w (moved this me nx ny w) = size_w w"
  "allOrgs (moved this me nx ny w) = allOrgs w"
  "rnd (moved this me nx ny w) = rnd w"
  "allocs (moved this me nx ny w) = allocs w"
  "age (moved this me nx ny w) = age w"
  "inBounds (moved this me nx ny w) x y = inBounds w x y"
  by (simp_all add: moved_def)

lemma deref_moved:
  "deref w this = Some me \<Longrightarrow>
   deref (moved this me nx ny w) b =
     (if b = this then Some (me\<lparr>getX := nx, getY := ny\<rparr>) else deref w b)"
  by (simp add: moved_def deref_store)

lemma getCell_moved:
  assumes "wf_grid w" "inBounds w nx ny" "inBounds w (getX me) (getY me)"
  shows "getCell (moved this me nx ny w) x y =
      (if x = getX me \<and> y = getY me then None
       else if x = nx \<and> y = ny then Some this else getCell w x y)"
  using assms by (simp add: moved_def getCell_setCell wf_grid_setCell)

lemma consistent_moved':
  assumes "consistent w" "this \<in> set (allOrgs w)" "deref w this = Some me"
    "getCell w nx ny = None" "inBounds w nx ny"
  shows "consistent (moved this me nx ny w)"
  unfolding moved_def using assms by (rule consistent_moved)

lemma removed_fields [simp]:
  "size_w (removed a x y w) = size_w w"
  "allOrgs (removed a x y w) = remove1 a (allOrgs w)"
  "rnd (removed a x y w) = rnd w"
  "allocs (removed a x y w) = allocs w"
  "age (removed a x y w) = age w"
  "inBounds (removed a x y w) x' y' = inBounds w x' y'"
  by (simp_all add: removed_def)

lemma deref_removed: "deref (removed a x y w) b = (if b = a then None else deref w b)"
  by (simp add: removed_def deref_def)

lemma getCell_removed:
  assumes "wf_grid w" "inBounds w x y"
  shows "getCell (removed a x y w) x' y' =
           (if x' = x \<and> y' = y then None else getCell w x' y')"
  using assms by (simp add: removed_def getCell_setCell)

lemma consistent_removed':
  assumes "consistent w" "getCell w x y = Some a"
  shows "consistent (removed a x y w)"
  unfolding removed_def using assms by (rule consistent_removed)

lemma deleteCell_removed:
  assumes "getCell w x y = Some a" "deref w a = Some oa"
  shows "deleteCell w x y = Some (removed a x y w)"
  unfolding removed_def using assms by (rule deleteCell_occupied)

subsection \<open>The scans find the first suitable cell\<close>

lemma move_loop_find:
  assumes "deref w this = Some me"
  shows "move_loop ns this w =
     (case find (is_empty w) ns of
        None \<Rightarrow> Some (False, w)
      | Some (nx, ny) \<Rightarrow> Some (True, moved this me nx ny w))"
proof (induction ns)
  case Nil
  show ?case by simp
next
  case (Cons c ns)
  obtain nx ny where c: "c = (nx, ny)" by (cases c)
  show ?case
    using Cons assms by (simp add: c is_empty_def setPos_def moved_def)
qed

lemma breed_loop_find:
  "breed_loop create ns w =
     (case find (is_empty w) ns of None \<Rightarrow> w | Some (nx, ny) \<Rightarrow> create w nx ny)"
proof (induction ns)
  case Nil
  show ?case by simp
next
  case (Cons c ns)
  obtain nx ny where c: "c = (nx, ny)" by (cases c)
  show ?case using Cons by (simp add: c is_empty_def)
qed

text \<open>The state after the doodlebug \<open>this\<close> ate the ant \<open>v\<close> of cell \<open>(nx, ny)\<close>.\<close>

lemma eat_loop_find:
  assumes c: "consistent w" and d: "deref w this = Some me" and k: "kind me = Doodlebug"
  shows "eat_loop ns this w =
     (case find (holds_Ant w) ns of
        None \<Rightarrow> Some (False, w)
      | Some (nx, ny) \<Rightarrow>
          Some (True, store this (me\<lparr>getX := nx, getY := ny, starveCount := 0\<rparr>)
                        (moved this me nx ny (removed (the (getCell w nx ny)) nx ny w))))"
proof (induction ns)
  case Nil
  show ?case by simp
next
  case (Cons cell ns)
  obtain nx ny where cell: "cell = (nx, ny)" by (cases cell)
  show ?case
  proof (cases "getCell w nx ny")
    case None
    then show ?thesis using Cons by (simp add: cell holds_Ant_def)
  next
    case (Some v)
    with c obtain ov where ov: "deref w v = Some ov" by (rule consistent_occupant)
    show ?thesis
    proof (cases "kind ov = Ant")
      case False
      then show ?thesis using Cons Some ov by (simp add: cell holds_Ant_def)
    next
      case True
      have ne: "this \<noteq> v" using True k d ov by auto
      have d1: "deref (removed v nx ny w) this = Some me"
        using ne d by (simp add: deref_removed)
      have "eat_loop (cell # ns) this w =
          Some (True, store this (me\<lparr>getX := nx, getY := ny, starveCount := 0\<rparr>)
                        (moved this me nx ny (removed v nx ny w)))"
        using Some ov True d1
        by (simp add: cell deleteCell_removed [OF Some ov] setPos_def moved_def deref_store)
      then show ?thesis using Some ov True by (simp add: cell holds_Ant_def)
    qed
  qed
qed

subsection \<open>Creation keeps grid and registry consistent\<close>

lemma consistent_createAnt:
  assumes "consistent w" "inBounds w x y"
  shows "consistent (createAnt w x y)"
  using assms by (simp add: createAnt_place consistent_place Ant_new_def)

lemma consistent_createDoodlebug:
  assumes "consistent w" "inBounds w x y"
  shows "consistent (createDoodlebug w x y)"
  using assms by (simp add: createDoodlebug_place consistent_place Doodlebug_new_def)

lemma getNeighbors_inBounds: "(nx, ny) \<in> set (getNeighbors w x y) \<Longrightarrow> inBounds w nx ny"
  by (auto simp: getNeighbors_def)

lemma getNeighbors_cong: "size_w w' = size_w w \<Longrightarrow> getNeighbors w' x y = getNeighbors w x y"
  by (simp add: getNeighbors_def inBounds_def)

subsection \<open>Effects of the three scans\<close>

lemma find_first:
  "find P xs = Some x \<Longrightarrow> \<exists>pre post. xs = pre @ x # post \<and> P x \<and> (\<forall>y \<in> set pre. \<not> P y)"
proof (induction xs)
  case Nil
  then show ?case by simp
next
  case (Cons a xs)
  show ?case
  proof (cases "P a")
    case True
    with Cons.prems have "a # xs = [] @ x # xs \<and> P x \<and> (\<forall>y \<in> set []. \<not> P y)" by simp
    then show ?thesis by blast
  next
    case False
    with Cons obtain pre post where "xs = pre @ x # post" "P x" "\<forall>y \<in> set pre. \<not> P y"
      by auto
    then have "a # xs = (a # pre) @ x # post \<and> P x \<and> (\<forall>y \<in> set (a # pre). \<not> P y)"
      using False by simp
    then show ?thesis by blast
  qed
qed

lemma find_append_first:
  "P x \<Longrightarrow> \<forall>y \<in> set pre. \<not> P y \<Longrightarrow> find P (pre @ x # post) = Some x"
  by (induction pre) simp_all

lemma move_loop_effect:
  assumes c: "consistent w" and a: "this \<in> set (allOrgs w)" and d: "deref w this = Some me"
    and nb: "\<forall>c \<in> set ns. inBounds w (fst c) (snd c)"
  obtains mv w' x' y' where
    "move_loop ns this w = Some (mv, w')" "consistent w'"
    "allOrgs w' = allOrgs w" "size_w w' = size_w w" "age w' = age w" "rnd w' = rnd w"
    "deref w' this = Some (me\<lparr>getX := x', getY := y'\<rparr>)"
    "(x', y') = (getX me, getY me) \<or> (x', y') \<in> set ns"
    "\<And>b. b \<noteq> this \<Longrightarrow> deref w' b = deref w b"
proof (cases "find (is_empty w) ns")
  case None
  then have "move_loop ns this w = Some (False, w)"
    by (simp add: move_loop_find [OF d])
  then show thesis
  proof (rule that)
    show "deref w this = Some (me\<lparr>getX := getX me, getY := getY me\<rparr>)" using d by simp
    show "(getX me, getY me) = (getX me, getY me) \<or> (getX me, getY me) \<in> set ns" by simp
  qed (simp_all add: c)
next
  case (Some cell)
  obtain nx ny where cell: "cell = (nx, ny)" by (cases cell)
  from find_first [OF Some] have m: "(nx, ny) \<in> set ns" and e: "getCell w nx ny = None"
    by (auto simp: cell is_empty_def)
  have ib: "inBounds w nx ny" using m nb by auto
  have "move_loop ns this w = Some (True, moved this me nx ny w)"
    using Some by (simp add: move_loop_find [OF d] cell)
  moreover have "consistent (moved this me nx ny w)"
    using c a d e ib by (rule consistent_moved')
  ultimately show thesis
  proof (rule that)
    show "deref (moved this me nx ny w) this = Some (me\<lparr>getX := nx, getY := ny\<rparr>)"
      using d by (simp add: deref_moved)
    show "(nx, ny) = (getX me, getY me) \<or> (nx, ny) \<in> set ns" using m by simp
    show "deref (moved this me nx ny w) b = deref w b" if "b \<noteq> this" for b
      using that d by (simp add: deref_moved)
  qed simp_all
qed

lemma eat_loop_effect:
  assumes c: "consistent w" and a: "this \<in> set (allOrgs w)" and d: "deref w this = Some me"
    and k: "kind me = Doodlebug"
  obtains (no_prey) "\<forall>c \<in> set ns. \<not> holds_Ant w c" "eat_loop ns this w = Some (False, w)"
  | (prey) pre nx ny post v ov w' where
      "ns = pre @ (nx, ny) # post" "\<forall>c \<in> set pre. \<not> holds_Ant w c"
      "getCell w nx ny = Some v" "deref w v = Some ov" "kind ov = Ant" "v \<noteq> this"
      "eat_loop ns this w = Some (True, w')" "consistent w'"
      "allOrgs w' = remove1 v (allOrgs w)" "this \<in> set (allOrgs w')"
      "size_w w' = size_w w" "age w' = age w" "rnd w' = rnd w"
      "deref w' this = Some (me\<lparr>getX := nx, getY := ny, starveCount := 0\<rparr>)"
      "deref w' v = None"
      "\<And>b. b \<noteq> this \<Longrightarrow> b \<noteq> v \<Longrightarrow> deref w' b = deref w b"
      "\<And>x y. getCell w' x y =
         (if x = getX me \<and> y = getY me then None
          else if x = nx \<and> y = ny then Some this else getCell w x y)"
proof (cases "find (holds_Ant w) ns")
  case None
  then have "eat_loop ns this w = Some (False, w)"
    by (simp add: eat_loop_find [OF c d k])
  moreover have "\<forall>c \<in> set ns. \<not> holds_Ant w c"
    using None by (auto simp: find_None_iff)
  ultimately show thesis by (intro no_prey)
next
  case (Some cell)
  obtain nx ny where cell: "cell = (nx, ny)" by (cases cell)
  from find_first [OF Some] obtain pre post where
    ns: "ns = pre @ (nx, ny) # post" and h: "holds_Ant w (nx, ny)"
    and fst: "\<forall>c \<in> set pre. \<not> holds_Ant w c"
    unfolding cell by blast
  from h obtain v ov where v: "getCell w nx ny = Some v" "deref w v = Some ov" "kind ov = Ant"
    by (auto simp: holds_Ant_def split: option.splits)
  have ne: "v \<noteq> this" using v d k by auto
  have wf: "wf_grid w" using c by (rule consistent_wf)
  have ibv: "inBounds w nx ny" using v(1) by (rule getCell_Some_inBounds)
  obtain org where "deref w this = Some org" "inBounds w (getX org) (getY org)"
    "getCell w (getX org) (getY org) = Some this"
    using c a by (rule consistent_registered)
  with d have me: "inBounds w (getX me) (getY me)" "getCell w (getX me) (getY me) = Some this"
    by simp_all
  have npos: "\<not> (nx = getX me \<and> ny = getY me)" using me v ne by auto
  define w1 where "w1 = removed v nx ny w"
  define w2 where "w2 = moved this me nx ny w1"
  define w' where "w' = store this (me\<lparr>getX := nx, getY := ny, starveCount := 0\<rparr>) w2"
  have c1: "consistent w1" unfolding w1_def using c v(1) by (rule consistent_removed')
  have wf1: "wf_grid w1" using c1 by (rule consistent_wf)
  have a1: "this \<in> set (allOrgs w1)" using a ne by (simp add: w1_def)
  have d1: "deref w1 this = Some me" using d ne by (simp add: w1_def deref_removed)
  have g1: "getCell w1 x y = (if x = nx \<and> y = ny then None else getCell w x y)" for x y
    unfolding w1_def using wf ibv by (rule getCell_removed)
  have ib1: "inBounds w1 x y = inBounds w x y" for x y by (simp add: w1_def)
  have c2: "consistent w2"
    unfolding w2_def using c1 a1 d1 by (rule consistent_moved') (simp_all add: g1 ib1 ibv)
  have d2: "deref w2 b = (if b = this then Some (me\<lparr>getX := nx, getY := ny\<rparr>) else deref w1 b)"
    for b
    unfolding w2_def using d1 by (rule deref_moved)
  have g2: "getCell w2 x y =
      (if x = getX me \<and> y = getY me then None
       else if x = nx \<and> y = ny then Some this else getCell w1 x y)" for x y
    unfolding w2_def using wf1 by (rule getCell_moved) (simp_all add: ib1 ibv me)
  have "deref w2 this = Some (me\<lparr>getX := nx, getY := ny\<rparr>)" by (simp add: d2)
  with c2 have c': "consistent w'"
    unfolding w'_def by (rule consistent_store) simp_all
  have d': "deref w' b =
      (if b = this then Some (me\<lparr>getX := nx, getY := ny, starveCount := 0\<rparr>) else deref w2 b)"
    for b
    unfolding w'_def by (rule deref_store) (simp add: d2)
  have e: "eat_loop ns this w = Some (True, w')"
    using Some v(1) by (simp add: eat_loop_find [OF c d k] cell w'_def w2_def w1_def)
  show thesis
  proof (rule prey [of pre nx ny post v ov w'])
    show "ns = pre @ (nx, ny) # post" by (rule ns)
    show "\<forall>c \<in> set pre. \<not> holds_Ant w c" by (rule fst)
    show "getCell w nx ny = Some v" "deref w v = Some ov" "kind ov = Ant" "v \<noteq> this"
      using v ne by simp_all
    show "eat_loop ns this w = Some (True, w')" by (rule e)
    show "consistent w'" by (rule c')
    show "allOrgs w' = remove1 v (allOrgs w)" by (simp add: w'_def w2_def w1_def)
    show "this \<in> set (allOrgs w')" using a1 by (simp add: w'_def w2_def)
    show "size_w w' = size_w w" "age w' = age w" "rnd w' = rnd w"
      by (simp_all add: w'_def w2_def w1_def)
    show "deref w' this = Some (me\<lparr>getX := nx, getY := ny, starveCount := 0\<rparr>)"
      by (simp add: d')
    show "deref w' v = None" using ne by (simp add: d' d2 w1_def deref_removed)
    show "deref w' b = deref w b" if "b \<noteq> this" "b \<noteq> v" for b
      using that by (simp add: d' d2 w1_def deref_removed)
    show "getCell w' x y =
         (if x = getX me \<and> y = getY me then None
          else if x = nx \<and> y = ny then Some this else getCell w x y)" for x y
      by (simp add: w'_def g2 g1)
  qed
qed

lemma breed_loop_effect:
  assumes c: "consistent w"
    and nb: "\<forall>c \<in> set ns. inBounds w (fst c) (snd c)"
    and cr: "\<And>w x y. create w x y = (if getCell w x y = None then place (mk x y) w x y else w)"
    and mk: "\<And>x y. getX (mk x y) = x \<and> getY (mk x y) = y"
  obtains nbs where
    "consistent (breed_loop create ns w)"
    "size_w (breed_loop create ns w) = size_w w"
    "age (breed_loop create ns w) = age w"
    "rnd (breed_loop create ns w) = rnd w"
    "allOrgs (breed_loop create ns w) = allOrgs w @ nbs"
    "length nbs \<le> 1"
    "\<And>b. deref w b \<noteq> None \<Longrightarrow> deref (breed_loop create ns w) b = deref w b"
    "\<And>x y. getCell w x y \<noteq> None \<Longrightarrow> getCell (breed_loop create ns w) x y = getCell w x y"
    "\<And>n. n \<in> set nbs \<Longrightarrow> deref w n = None \<and>
       (\<exists>nx ny. (nx, ny) \<in> set ns \<and> getCell w nx ny = None \<and>
                deref (breed_loop create ns w) n = Some (mk nx ny) \<and>
                getCell (breed_loop create ns w) nx ny = Some n)"
proof (cases "find (is_empty w) ns")
  case None
  then have "breed_loop create ns w = w" by (simp add: breed_loop_find)
  then show thesis using c by (intro that [of "[]"]) simp_all
next
  case (Some cell)
  obtain nx ny where cell: "cell = (nx, ny)" by (cases cell)
  from find_first [OF Some] have m: "(nx, ny) \<in> set ns" and e: "getCell w nx ny = None"
    by (auto simp: cell is_empty_def)
  have ib: "inBounds w nx ny" using m nb by auto
  have b: "breed_loop create ns w = place (mk nx ny) w nx ny"
    using Some e by (simp add: breed_loop_find cell cr)
  have cp: "consistent (place (mk nx ny) w nx ny)"
    using c ib e by (rule consistent_place) (simp_all add: mk)
  show thesis
  proof (rule place_effect [OF consistent_wf [OF c] ib, of "mk nx ny"])
    fix n
    assume f: "deref w n = None"
      and al: "allOrgs (place (mk nx ny) w nx ny) = allOrgs w @ [n]"
      and sz: "size_w (place (mk nx ny) w nx ny) = size_w w"
      and rn: "rnd (place (mk nx ny) w nx ny) = rnd w"
      and ag: "age (place (mk nx ny) w nx ny) = age w"
      and dr: "\<And>b. deref (place (mk nx ny) w nx ny) b =
                 (if b = n then Some (mk nx ny) else deref w b)"
      and gc: "\<And>x' y'. getCell (place (mk nx ny) w nx ny) x' y' =
                 (if x' = nx \<and> y' = ny then Some n else getCell w x' y')"
    show thesis
    proof (rule that [of "[n]"])
      show "consistent (breed_loop create ns w)" using cp by (simp add: b)
      show "size_w (breed_loop create ns w) = size_w w" by (simp add: b sz)
      show "age (breed_loop create ns w) = age w" by (simp add: b ag)
      show "rnd (breed_loop create ns w) = rnd w" by (simp add: b rn)
      show "allOrgs (breed_loop create ns w) = allOrgs w @ [n]" by (simp add: b al)
      show "length [n] \<le> 1" by simp
      show "deref (breed_loop create ns w) b' = deref w b'" if "deref w b' \<noteq> None" for b'
        using that f by (auto simp: b dr)
      show "getCell (breed_loop create ns w) x y = getCell w x y"
        if "getCell w x y \<noteq> None" for x y
        using that e by (auto simp: b gc)
      show "deref w n' = None \<and>
       (\<exists>nx ny. (nx, ny) \<in> set ns \<and> getCell w nx ny = None \<and>
                deref (breed_loop create ns w) n' = Some (mk nx ny) \<and>
                getCell (breed_loop create ns w) nx ny = Some n')" if "n' \<in> set [n]" for n'
        using that f m e by (auto simp: b dr gc)
    qed
  qed
qed

subsection \<open>Effects of the phases\<close>

lemma shuffle_gen_parts:
  "set (fst (shuffle_gen xs w)) = set xs"
  "distinct (fst (shuffle_gen xs w)) = distinct xs"
  "snd (shuffle_gen xs w) = w\<lparr>rnd := tl (rnd w)\<rparr>"
  by (simp_all add: shuffle_gen_def)

lemma env_views [simp]:
  "holds_Ant (w\<lparr>rnd := r\<rparr>) c = holds_Ant w c"
  "is_empty (w\<lparr>rnd := r\<rparr>) c = is_empty w c"
  "getNeighbors (w\<lparr>rnd := r\<rparr>) x y = getNeighbors w x y"
  "holds_Ant (w\<lparr>age := n\<rparr>) c = holds_Ant w c"
  "getNeighbors (w\<lparr>age := n\<rparr>) x y = getNeighbors w x y"
  by (simp_all add: holds_Ant_def is_empty_def getNeighbors_def cong: option.case_cong)

lemma breed_phase_effect:
  assumes c: "consistent w" and a: "this \<in> set (allOrgs w)" and d: "deref w this = Some me"
    and nb: "\<forall>c \<in> set ns. inBounds w (fst c) (snd c)"
    and cr: "\<And>w x y. create w x y = (if getCell w x y = None then place (mk x y) w x y else w)"
    and mk: "\<And>x y. getX (mk x y) = x \<and> getY (mk x y) = y"
  obtains w' nbs where
    "breed_phase t create ns this w = Some w'" "consistent w'"
    "size_w w' = size_w w" "age w' = age w"
    "allOrgs w' = allOrgs w @ nbs" "length nbs \<le> 1"
    "deref w' this =
       Some (me\<lparr>breedCount := (if t \<le> breedCount me + 1 then 0 else breedCount me + 1)\<rparr>)"
    "\<And>b. b \<noteq> this \<Longrightarrow> deref w b \<noteq> None \<Longrightarrow> deref w' b = deref w b"
    "\<And>x y. getCell w x y \<noteq> None \<Longrightarrow> getCell w' x y = getCell w x y"
    "\<And>n. n \<in> set nbs \<Longrightarrow> n \<noteq> this \<and> deref w n = None \<and>
       (\<exists>nx ny. (nx, ny) \<in> set ns \<and> getCell w nx ny = None \<and>
                deref w' n = Some (mk nx ny) \<and> getCell w' nx ny = Some n)"
    "rnd w' = (if t \<le> breedCount me + 1 then tl (rnd w) else rnd w)"
proof -
  define me1 where "me1 = me\<lparr>breedCount := breedCount me + 1\<rparr>"
  define w1 where "w1 = store this me1 w"
  have i: "incBreed this w = Some w1" by (simp add: incBreed_def d w1_def me1_def)
  have c1: "consistent w1"
    unfolding w1_def using c d by (rule consistent_store) (simp_all add: me1_def)
  have d1: "deref w1 b = (if b = this then Some me1 else deref w b)" for b
    unfolding w1_def by (rule deref_store [OF d])
  have bc: "breedCount me1 = breedCount me + 1" by (simp add: me1_def)
  show thesis
  proof (cases "t \<le> breedCount me + 1")
    case False
    have "breed_phase t create ns this w = Some w1"
      using False by (simp add: breed_phase_def i d1 bc)
    then show thesis
    proof (rule that [of w1 "[]"])
      show "deref w1 this =
         Some (me\<lparr>breedCount := (if t \<le> breedCount me + 1 then 0 else breedCount me + 1)\<rparr>)"
        using False by (simp add: d1 me1_def)
    qed (simp_all add: c1 d1 False, simp_all add: w1_def)
  next
    case True
    define ns' where "ns' = fst (shuffle_gen ns w1)"
    define w2 where "w2 = snd (shuffle_gen ns w1)"
    let ?w3 = "breed_loop create ns' w2"
    define w' where "w' = store this (me1\<lparr>breedCount := 0\<rparr>) ?w3"
    have sg: "shuffle_gen ns w1 = (ns', w2)" by (simp add: ns'_def w2_def)
    have w2: "w2 = w1\<lparr>rnd := tl (rnd w1)\<rparr>" by (simp add: w2_def shuffle_gen_parts)
    have sns: "set ns' = set ns" by (simp add: ns'_def shuffle_gen_parts)
    have c2: "consistent w2" using c1 by (simp add: w2)
    have d2: "deref w2 b = (if b = this then Some me1 else deref w b)" for b
      by (simp add: w2 d1)
    have g2: "getCell w2 x y = getCell w x y" for x y by (simp add: w2 w1_def)
    have f2: "size_w w2 = size_w w" "age w2 = age w" "allOrgs w2 = allOrgs w"
      by (simp_all add: w2 w1_def)
    have nb2: "\<forall>c \<in> set ns'. inBounds w2 (fst c) (snd c)"
      using nb by (simp add: sns w2 w1_def)
    obtain nbs where
      c3: "consistent ?w3" and sz3: "size_w ?w3 = size_w w2" and ag3: "age ?w3 = age w2"
      and rn3: "rnd ?w3 = rnd w2"
      and al3: "allOrgs ?w3 = allOrgs w2 @ nbs" and ln: "length nbs \<le> 1"
      and d3: "\<And>b. deref w2 b \<noteq> None \<Longrightarrow> deref ?w3 b = deref w2 b"
      and g3: "\<And>x y. getCell w2 x y \<noteq> None \<Longrightarrow> getCell ?w3 x y = getCell w2 x y"
      and nw: "\<And>n. n \<in> set nbs \<Longrightarrow> deref w2 n = None \<and>
         (\<exists>nx ny. (nx, ny) \<in> set ns' \<and> getCell w2 nx ny = None \<and>
                  deref ?w3 n = Some (mk nx ny) \<and> getCell ?w3 nx ny = Some n)"
      by (rule breed_loop_effect
            [where w = w2 and ns = ns' and create = create and mk = mk, OF c2 nb2 cr mk])
        (rule that)
    have d3t: "deref ?w3 this = Some me1" using d3 [of this] by (simp add: d2)
    have r: "resetBreed this ?w3 = Some w'" by (simp add: resetBreed_def d3t w'_def)
    have c': "consistent w'"
      unfolding w'_def using c3 d3t by (rule consistent_store) simp_all
    have d': "deref w' b = (if b = this then Some (me1\<lparr>breedCount := 0\<rparr>) else deref ?w3 b)"
      for b
      unfolding w'_def by (rule deref_store [OF d3t])
    have "breed_phase t create ns this w = Some w'"
      using True by (simp add: breed_phase_def i d1 bc sg r)
    then show thesis
    proof (rule that [of w' nbs])
      show "consistent w'" by (rule c')
      show "size_w w' = size_w w" by (simp add: w'_def sz3 f2)
      show "age w' = age w" by (simp add: w'_def ag3 f2)
      show "allOrgs w' = allOrgs w @ nbs" by (simp add: w'_def al3 f2)
      show "length nbs \<le> 1" by (rule ln)
      show "deref w' this =
         Some (me\<lparr>breedCount := (if t \<le> breedCount me + 1 then 0 else breedCount me + 1)\<rparr>)"
        using True by (simp add: d' me1_def)
      show "deref w' b = deref w b" if "b \<noteq> this" "deref w b \<noteq> None" for b
        using that d3 [of b] by (simp add: d' d2)
      show "getCell w' x y = getCell w x y" if "getCell w x y \<noteq> None" for x y
        using that g3 [of x y] by (simp add: w'_def g2)
      show "n \<noteq> this \<and> deref w n = None \<and>
         (\<exists>nx ny. (nx, ny) \<in> set ns \<and> getCell w nx ny = None \<and>
                  deref w' n = Some (mk nx ny) \<and> getCell w' nx ny = Some n)"
        if "n \<in> set nbs" for n
      proof -
        from nw [OF that] obtain nx ny where
          f: "deref w2 n = None" "(nx, ny) \<in> set ns'" "getCell w2 nx ny = None"
            "deref ?w3 n = Some (mk nx ny)" "getCell ?w3 nx ny = Some n"
          by blast
        have nt: "n \<noteq> this" using f(1) by (auto simp: d2)
        then have "deref w n = None" using f(1) by (simp add: d2)
        moreover have "(nx, ny) \<in> set ns" using f(2) by (simp add: sns)
        moreover have "getCell w nx ny = None" using f(3) by (simp add: g2)
        moreover have "deref w' n = Some (mk nx ny)" using nt f(4) by (simp add: d')
        moreover have "getCell w' nx ny = Some n" using f(5) by (simp add: w'_def)
        ultimately show ?thesis using nt by blast
      qed
      show "rnd w' = (if t \<le> breedCount me + 1 then tl (rnd w) else rnd w)"
      proof -
        have "rnd w2 = tl (rnd w)" by (simp add: w2 w1_def)
        then show ?thesis using True by (simp add: w'_def rn3)
      qed
    qed
  qed
qed

lemma starveCount_inc_Some:
  "deref w this = Some me \<Longrightarrow>
   starveCount_inc this w = Some (store this (me\<lparr>starveCount := starveCount me + 1\<rparr>) w)"
  by (simp add: starveCount_inc_def)

lemma Doodlebug_hunt_effect:
  assumes c: "consistent w" and a: "this \<in> set (allOrgs w)" and d: "deref w this = Some me"
    and k: "kind me = Doodlebug"
    and nb: "\<forall>c \<in> set ns0. inBounds w (fst c) (snd c)"
  obtains (hungry) ns w' x' y' where
      "\<forall>c \<in> set ns0. \<not> holds_Ant w c"
      "Doodlebug_hunt ns0 this w = Some (ns, w')" "set ns = set ns0" "consistent w'"
      "allOrgs w' = allOrgs w" "size_w w' = size_w w" "age w' = age w"
      "rnd w' = tl (tl (rnd w))"
      "deref w' this =
         Some (me\<lparr>getX := x', getY := y', starveCount := starveCount me + 1\<rparr>)"
      "(x', y') = (getX me, getY me) \<or> (x', y') \<in> set ns0"
      "\<And>b. b \<noteq> this \<Longrightarrow> deref w' b = deref w b"
  | (fed) pre nx ny post v ov w' where
      "fst (shuffle_gen ns0 w) = pre @ (nx, ny) # post" "\<forall>c \<in> set pre. \<not> holds_Ant w c"
      "getCell w nx ny = Some v" "deref w v = Some ov" "kind ov = Ant" "v \<noteq> this"
      "Doodlebug_hunt ns0 this w = Some (fst (shuffle_gen ns0 w), w')" "consistent w'"
      "allOrgs w' = remove1 v (allOrgs w)" "this \<in> set (allOrgs w')"
      "size_w w' = size_w w" "age w' = age w" "rnd w' = tl (rnd w)"
      "deref w' this = Some (me\<lparr>getX := nx, getY := ny, starveCount := 0\<rparr>)"
      "deref w' v = None"
      "\<And>b. b \<noteq> this \<Longrightarrow> b \<noteq> v \<Longrightarrow> deref w' b = deref w b"
      "\<And>x y. getCell w' x y =
         (if x = getX me \<and> y = getY me then None
          else if x = nx \<and> y = ny then Some this else getCell w x y)"
proof -
  define ns1 where "ns1 = fst (shuffle_gen ns0 w)"
  define w1 where "w1 = snd (shuffle_gen ns0 w)"
  have sg1: "shuffle_gen ns0 w = (ns1, w1)" by (simp add: ns1_def w1_def)
  have w1: "w1 = w\<lparr>rnd := tl (rnd w)\<rparr>" by (simp add: w1_def shuffle_gen_parts)
  have s1: "set ns1 = set ns0" by (simp add: ns1_def shuffle_gen_parts)
  have c1: "consistent w1" using c by (simp add: w1)
  have a1: "this \<in> set (allOrgs w1)" using a by (simp add: w1)
  have d1: "deref w1 b = deref w b" for b by (simp add: w1)
  have h1: "holds_Ant w1 cl = holds_Ant w cl" for cl by (simp add: w1)
  have g1: "getCell w1 x y = getCell w x y" for x y by (simp add: w1)
  have f1: "size_w w1 = size_w w" "age w1 = age w" "allOrgs w1 = allOrgs w"
    "rnd w1 = tl (rnd w)"
    by (simp_all add: w1)
  have d1t: "deref w1 this = Some me" using d by (simp add: d1)
  show thesis
  proof (rule eat_loop_effect [OF c1 a1 d1t k, where ns = ns1], goal_cases)
    case 1
    note no_prey = 1
    define ns2 where "ns2 = fst (shuffle_gen ns1 w1)"
    define w2 where "w2 = snd (shuffle_gen ns1 w1)"
    have sg2: "shuffle_gen ns1 w1 = (ns2, w2)" by (simp add: ns2_def w2_def)
    have w2: "w2 = w1\<lparr>rnd := tl (rnd w1)\<rparr>" by (simp add: w2_def shuffle_gen_parts)
    have s2: "set ns2 = set ns0" by (simp add: ns2_def shuffle_gen_parts s1)
    have c2: "consistent w2" using c1 by (simp add: w2)
    have a2: "this \<in> set (allOrgs w2)" using a1 by (simp add: w2)
    have d2: "deref w2 b = deref w b" for b by (simp add: w2 d1)
    have d2t: "deref w2 this = Some me" using d by (simp add: d2)
    have f2: "size_w w2 = size_w w" "age w2 = age w" "allOrgs w2 = allOrgs w"
      "rnd w2 = tl (tl (rnd w))"
      by (simp_all add: w2 f1)
    have nb2: "\<forall>c \<in> set ns2. inBounds w2 (fst c) (snd c)"
      using nb by (simp add: s2 w2 w1)
    obtain mv w3 x' y' where
      m: "move_loop ns2 this w2 = Some (mv, w3)" and c3: "consistent w3"
      and al3: "allOrgs w3 = allOrgs w2" and sz3: "size_w w3 = size_w w2"
      and ag3: "age w3 = age w2" and rn3: "rnd w3 = rnd w2"
      and d3t: "deref w3 this = Some (me\<lparr>getX := x', getY := y'\<rparr>)"
      and p3: "(x', y') = (getX me, getY me) \<or> (x', y') \<in> set ns2"
      and d3: "\<And>b. b \<noteq> this \<Longrightarrow> deref w3 b = deref w2 b"
      by (rule move_loop_effect [OF c2 a2 d2t nb2]) (rule that)
    define w4 where
      "w4 = store this (me\<lparr>getX := x', getY := y', starveCount := starveCount me + 1\<rparr>) w3"
    have sc: "starveCount_inc this w3 = Some w4"
      by (simp add: starveCount_inc_Some [OF d3t] w4_def)
    have c4: "consistent w4"
      unfolding w4_def using c3 d3t by (rule consistent_store) simp_all
    have d4: "deref w4 b =
        (if b = this
         then Some (me\<lparr>getX := x', getY := y', starveCount := starveCount me + 1\<rparr>)
         else deref w3 b)" for b
      unfolding w4_def by (rule deref_store [OF d3t])
    have hunt: "Doodlebug_hunt ns0 this w = Some (ns2, w4)"
      using no_prey(2) by (simp add: Doodlebug_hunt_def sg1 sg2 m sc)
    show thesis
    proof (rule hungry)
      show "\<forall>c \<in> set ns0. \<not> holds_Ant w c" using no_prey(1) by (simp add: s1 h1)
      show "Doodlebug_hunt ns0 this w = Some (ns2, w4)" by (rule hunt)
      show "set ns2 = set ns0" by (rule s2)
      show "consistent w4" by (rule c4)
      show "allOrgs w4 = allOrgs w" by (simp add: w4_def al3 f2)
      show "size_w w4 = size_w w" by (simp add: w4_def sz3 f2)
      show "age w4 = age w" by (simp add: w4_def ag3 f2)
      show "rnd w4 = tl (tl (rnd w))" by (simp add: w4_def rn3 f2)
      show "deref w4 this =
         Some (me\<lparr>getX := x', getY := y', starveCount := starveCount me + 1\<rparr>)"
        by (simp add: d4)
      show "(x', y') = (getX me, getY me) \<or> (x', y') \<in> set ns0" using p3 by (simp add: s2)
      show "deref w4 b = deref w b" if "b \<noteq> this" for b
        using that by (simp add: d4 d3 d2)
    qed
  next
    case (2 pre nx ny post v ov w')
    note prey = 2
    have hunt: "Doodlebug_hunt ns0 this w = Some (ns1, w')"
      using prey(7) by (simp add: Doodlebug_hunt_def sg1)
    show thesis
    proof (rule fed)
      show "fst (shuffle_gen ns0 w) = pre @ (nx, ny) # post"
        using prey(1) by (simp add: ns1_def)
      show "\<forall>c \<in> set pre. \<not> holds_Ant w c" using prey(2) by (simp add: h1)
      show "getCell w nx ny = Some v" using prey(3) by (simp add: g1)
      show "deref w v = Some ov" using prey(4) by (simp add: d1)
      show "kind ov = Ant" by (rule prey(5))
      show "v \<noteq> this" by (rule prey(6))
      show "Doodlebug_hunt ns0 this w = Some (fst (shuffle_gen ns0 w), w')"
        using hunt by (simp add: ns1_def)
      show "consistent w'" by (rule prey(8))
      show "allOrgs w' = remove1 v (allOrgs w)" using prey(9) by (simp add: f1)
      show "this \<in> set (allOrgs w')" by (rule prey(10))
      show "size_w w' = size_w w" using prey(11) by (simp add: f1)
      show "age w' = age w" using prey(12) by (simp add: f1)
      show "rnd w' = tl (rnd w)" using prey(13) by (simp add: f1)
      show "deref w' this = Some (me\<lparr>getX := nx, getY := ny, starveCount := 0\<rparr>)"
        by (rule prey(14))
      show "deref w' v = None" by (rule prey(15))
      show "deref w' b = deref w b" if "b \<noteq> this" "b \<noteq> v" for b
        using prey(16) [OF that] by (simp add: d1)
      show "getCell w' x y =
         (if x = getX me \<and> y = getY me then None
          else if x = nx \<and> y = ny then Some this else getCell w x y)" for x y
        by (simp only: prey(17) [of x y] g1)
    qed
  qed
qed

subsection \<open>Effects of a whole update\<close>

lemma getNeighbors_all_inBounds: "\<forall>c \<in> set (getNeighbors w x y). inBounds w (fst c) (snd c)"
  by (auto simp: getNeighbors_def)

lemma registered_position:
  assumes "consistent w" "this \<in> set (allOrgs w)" "deref w this = Some me"
  shows "inBounds w (getX me) (getY me)" "getCell w (getX me) (getY me) = Some this"
proof -
  obtain org where "deref w this = Some org" "inBounds w (getX org) (getY org)"
    "getCell w (getX org) (getY org) = Some this"
    using assms(1,2) by (rule consistent_registered)
  with assms(3) show "inBounds w (getX me) (getY me)" "getCell w (getX me) (getY me) = Some this"
    by simp_all
qed

lemma Ant_update_effect:
  assumes c: "consistent w" and a: "this \<in> set (allOrgs w)" and d: "deref w this = Some me"
  obtains w' x' y' nbs where
    "Ant_update this w = Some w'" "consistent w'" "size_w w' = size_w w" "age w' = age w"
    "allOrgs w' = allOrgs w @ nbs" "length nbs \<le> 1"
    "deref w' this =
       Some (me\<lparr>getX := x', getY := y',
               breedCount := (if ANT_BREED \<le> breedCount me + 1 then 0 else breedCount me + 1)\<rparr>)"
    "(x', y') = (getX me, getY me) \<or> (x', y') \<in> set (getNeighbors w (getX me) (getY me))"
    "\<And>b. b \<noteq> this \<Longrightarrow> deref w b \<noteq> None \<Longrightarrow> deref w' b = deref w b"
    "\<And>n. n \<in> set nbs \<Longrightarrow> n \<noteq> this \<and> deref w n = None \<and>
       (\<exists>nx ny. (nx, ny) \<in> set (getNeighbors w (getX me) (getY me)) \<and>
                deref w' n = Some (Ant_new nx ny) \<and> getCell w' nx ny = Some n)"
    "rnd w' = (if ANT_BREED \<le> breedCount me + 1 then tl (tl (rnd w)) else tl (rnd w))"
proof -
  let ?N = "getNeighbors w (getX me) (getY me)"
  define ns1 where "ns1 = fst (shuffle_gen ?N w)"
  define w1 where "w1 = snd (shuffle_gen ?N w)"
  have sg1: "shuffle_gen ?N w = (ns1, w1)" by (simp add: ns1_def w1_def)
  have w1: "w1 = w\<lparr>rnd := tl (rnd w)\<rparr>" by (simp add: w1_def shuffle_gen_parts)
  have s1: "set ns1 = set ?N" by (simp add: ns1_def shuffle_gen_parts)
  have c1: "consistent w1" using c by (simp add: w1)
  have a1: "this \<in> set (allOrgs w1)" using a by (simp add: w1)
  have d1: "deref w1 b = deref w b" for b by (simp add: w1)
  have d1t: "deref w1 this = Some me" using d by (simp add: d1)
  have f1: "size_w w1 = size_w w" "age w1 = age w" "allOrgs w1 = allOrgs w"
    by (simp_all add: w1)
  have nb1: "\<forall>c \<in> set ns1. inBounds w1 (fst c) (snd c)"
    using getNeighbors_all_inBounds [of w "getX me" "getY me"] by (simp add: s1 w1)
  obtain mv w2 x' y' where
    m: "move_loop ns1 this w1 = Some (mv, w2)" and c2: "consistent w2"
    and al2: "allOrgs w2 = allOrgs w1" and sz2: "size_w w2 = size_w w1"
    and ag2: "age w2 = age w1" and rn2: "rnd w2 = rnd w1"
    and d2t: "deref w2 this = Some (me\<lparr>getX := x', getY := y'\<rparr>)"
    and p2: "(x', y') = (getX me, getY me) \<or> (x', y') \<in> set ns1"
    and d2: "\<And>b. b \<noteq> this \<Longrightarrow> deref w2 b = deref w1 b"
    by (rule move_loop_effect [OF c1 a1 d1t nb1]) (rule that)
  have a2: "this \<in> set (allOrgs w2)" using a1 by (simp add: al2)
  have nb2: "\<forall>c \<in> set ns1. inBounds w2 (fst c) (snd c)"
    using nb1 by (simp add: inBounds_def sz2)
  have mk: "\<And>x y. getX (Ant_new x y) = x \<and> getY (Ant_new x y) = y"
    by (simp add: Ant_new_def)
  obtain w' nbs where
    bp: "breed_phase ANT_BREED createAnt ns1 this w2 = Some w'" and c': "consistent w'"
    and sz': "size_w w' = size_w w2" and ag': "age w' = age w2"
    and al': "allOrgs w' = allOrgs w2 @ nbs" and ln: "length nbs \<le> 1"
    and d't: "deref w' this =
       Some (me\<lparr>getX := x', getY := y'\<rparr>
         \<lparr>breedCount := (if ANT_BREED \<le> breedCount (me\<lparr>getX := x', getY := y'\<rparr>) + 1 then 0
                         else breedCount (me\<lparr>getX := x', getY := y'\<rparr>) + 1)\<rparr>)"
    and d': "\<And>b. b \<noteq> this \<Longrightarrow> deref w2 b \<noteq> None \<Longrightarrow> deref w' b = deref w2 b"
    and g': "\<And>x y. getCell w2 x y \<noteq> None \<Longrightarrow> getCell w' x y = getCell w2 x y"
    and nw: "\<And>n. n \<in> set nbs \<Longrightarrow> n \<noteq> this \<and> deref w2 n = None \<and>
       (\<exists>nx ny. (nx, ny) \<in> set ns1 \<and> getCell w2 nx ny = None \<and>
                deref w' n = Some (Ant_new nx ny) \<and> getCell w' nx ny = Some n)"
    and rn': "rnd w' =
       (if ANT_BREED \<le> breedCount (me\<lparr>getX := x', getY := y'\<rparr>) + 1 then tl (rnd w2)
        else rnd w2)"
    by (rule breed_phase_effect [OF c2 a2 d2t nb2 createAnt_place mk, where t = ANT_BREED])
      (rule that)
  have u: "Ant_update this w = Some w'"
    by (simp add: Ant_update_def d sg1 m bp)
  show thesis
  proof (rule that)
    show "Ant_update this w = Some w'" by (rule u)
    show "consistent w'" by (rule c')
    show "size_w w' = size_w w" by (simp add: sz' sz2 f1)
    show "age w' = age w" by (simp add: ag' ag2 f1)
    show "allOrgs w' = allOrgs w @ nbs" by (simp add: al' al2 f1)
    show "length nbs \<le> 1" by (rule ln)
    show "deref w' this =
       Some (me\<lparr>getX := x', getY := y',
               breedCount := (if ANT_BREED \<le> breedCount me + 1 then 0 else breedCount me + 1)\<rparr>)"
      by (simp add: d't)
    show "(x', y') = (getX me, getY me) \<or> (x', y') \<in> set ?N" using p2 by (simp add: s1)
    show "deref w' b = deref w b" if "b \<noteq> this" "deref w b \<noteq> None" for b
      using that d' [of b] by (simp add: d2 d1)
    show "n \<noteq> this \<and> deref w n = None \<and>
       (\<exists>nx ny. (nx, ny) \<in> set ?N \<and> deref w' n = Some (Ant_new nx ny) \<and>
                getCell w' nx ny = Some n)" if "n \<in> set nbs" for n
    proof -
      from nw [OF that] obtain nx ny where
        f: "n \<noteq> this" "deref w2 n = None" "(nx, ny) \<in> set ns1"
          "deref w' n = Some (Ant_new nx ny)" "getCell w' nx ny = Some n"
        by blast
      have "deref w n = None" using f(1,2) by (simp add: d2 d1)
      moreover have "(nx, ny) \<in> set ?N" using f(3) by (simp add: s1)
      ultimately show ?thesis using f(1,4,5) by blast
    qed
    show "rnd w' = (if ANT_BREED \<le> breedCount me + 1 then tl (tl (rnd w)) else tl (rnd w))"
      by (simp add: rn' rn2 w1)
  qed
qed

lemma Doodlebug_starve_effect:
  assumes c: "consistent w" and a: "this \<in> set (allOrgs w)" and d: "deref w this = Some me"
    and s: "starve me"
  shows "Doodlebug_update this w = Some (removed this (getX me) (getY me) w)"
    and "consistent (removed this (getX me) (getY me) w)"
proof -
  have g: "getCell w (getX me) (getY me) = Some this"
    using c a d by (rule registered_position)
  show "Doodlebug_update this w = Some (removed this (getX me) (getY me) w)"
    using s by (simp add: Doodlebug_update_def d deleteCell_removed [OF g d])
  show "consistent (removed this (getX me) (getY me) w)"
    using c g by (rule consistent_removed')
qed

lemma Doodlebug_update_effect:
  assumes c: "consistent w" and a: "this \<in> set (allOrgs w)" and d: "deref w this = Some me"
    and k: "kind me = Doodlebug" and s: "\<not> starve me"
  obtains w' x' y' vs nbs where
    "Doodlebug_update this w = Some w'" "consistent w'" "size_w w' = size_w w" "age w' = age w"
    "allOrgs w' = foldr remove1 vs (allOrgs w) @ nbs" "length vs \<le> 1" "length nbs \<le> 1"
    "(vs = []) = (\<forall>c \<in> set (getNeighbors w (getX me) (getY me)). \<not> holds_Ant w c)"
    "deref w' this =
       Some (me\<lparr>getX := x', getY := y',
               breedCount :=
                 (if DOODLE_BREED \<le> breedCount me + 1 then 0 else breedCount me + 1),
               starveCount := (if vs = [] then starveCount me + 1 else 0)\<rparr>)"
    "(x', y') = (getX me, getY me) \<or> (x', y') \<in> set (getNeighbors w (getX me) (getY me))"
    "\<And>v. v \<in> set vs \<Longrightarrow> v \<noteq> this \<and> getCell w x' y' = Some v \<and>
       getCell w' x' y' = Some this \<and> (\<exists>ov. deref w v = Some ov \<and> kind ov = Ant)"
    "\<And>b. b \<noteq> this \<Longrightarrow> b \<notin> set vs \<Longrightarrow> deref w b \<noteq> None \<Longrightarrow> deref w' b = deref w b"
    "\<And>n. n \<in> set nbs \<Longrightarrow> n \<noteq> this \<and> (deref w n = None \<or> n \<in> set vs) \<and>
       (\<exists>nx ny. (nx, ny) \<in> set (getNeighbors w (getX me) (getY me)) \<and>
                deref w' n = Some (Doodlebug_new nx ny) \<and> getCell w' nx ny = Some n)"
    "rnd w' =
       (if DOODLE_BREED \<le> breedCount me + 1
        then tl (if vs = [] then tl (tl (rnd w)) else tl (rnd w))
        else (if vs = [] then tl (tl (rnd w)) else tl (rnd w)))"
proof -
  let ?N = "getNeighbors w (getX me) (getY me)"
  have nbN: "\<forall>c \<in> set ?N. inBounds w (fst c) (snd c)" by (rule getNeighbors_all_inBounds)
  have mk: "\<And>x y. getX (Doodlebug_new x y) = x \<and> getY (Doodlebug_new x y) = y"
    by (simp add: Doodlebug_new_def)
  have pos: "getCell w (getX me) (getY me) = Some this"
    using c a d by (rule registered_position)
  show thesis
  proof (rule Doodlebug_hunt_effect [OF c a d k nbN], goal_cases)
    case (1 ns w2 x' y')
    note h = 1
    have a2: "this \<in> set (allOrgs w2)" using a by (simp add: h(5))
    have nb2: "\<forall>c \<in> set ns. inBounds w2 (fst c) (snd c)"
      using nbN by (simp add: inBounds_def h(3) h(6))
    obtain w' nbs where
      bp: "breed_phase DOODLE_BREED createDoodlebug ns this w2 = Some w'"
      and c': "consistent w'"
      and sz': "size_w w' = size_w w2" and ag': "age w' = age w2"
      and al': "allOrgs w' = allOrgs w2 @ nbs" and ln: "length nbs \<le> 1"
      and d't: "deref w' this =
         Some (me\<lparr>getX := x', getY := y', starveCount := starveCount me + 1\<rparr>
           \<lparr>breedCount :=
              (if DOODLE_BREED \<le>
                    breedCount (me\<lparr>getX := x', getY := y',
                                     starveCount := starveCount me + 1\<rparr>) + 1
               then 0
               else breedCount (me\<lparr>getX := x', getY := y',
                                     starveCount := starveCount me + 1\<rparr>) + 1)\<rparr>)"
      and d': "\<And>b. b \<noteq> this \<Longrightarrow> deref w2 b \<noteq> None \<Longrightarrow> deref w' b = deref w2 b"
      and g': "\<And>x y. getCell w2 x y \<noteq> None \<Longrightarrow> getCell w' x y = getCell w2 x y"
      and nw: "\<And>n. n \<in> set nbs \<Longrightarrow> n \<noteq> this \<and> deref w2 n = None \<and>
         (\<exists>nx ny. (nx, ny) \<in> set ns \<and> getCell w2 nx ny = None \<and>
                  deref w' n = Some (Doodlebug_new nx ny) \<and> getCell w' nx ny = Some n)"
      and rn': "rnd w' =
         (if DOODLE_BREED \<le>
               breedCount (me\<lparr>getX := x', getY := y',
                                starveCount := starveCount me + 1\<rparr>) + 1
          then tl (rnd w2) else rnd w2)"
      by (rule breed_phase_effect
            [OF h(4) a2 h(9) nb2 createDoodlebug_place mk, where t = DOODLE_BREED])
        (rule that)
    have u: "Doodlebug_update this w = Some w'"
      using s by (simp add: Doodlebug_update_def d h(2) bp)
    show ?case
    proof (rule that [where vs = "[]"])
      show "Doodlebug_update this w = Some w'" by (rule u)
      show "consistent w'" by (rule c')
      show "size_w w' = size_w w" by (simp add: sz' h(6))
      show "age w' = age w" by (simp add: ag' h(7))
      show "allOrgs w' = foldr remove1 [] (allOrgs w) @ nbs" by (simp add: al' h(5))
      show "length ([] :: addr list) \<le> 1" by simp
      show "length nbs \<le> 1" by (rule ln)
      show "(([] :: addr list) = []) = (\<forall>c \<in> set ?N. \<not> holds_Ant w c)" using h(1) by simp
      show "deref w' this =
         Some (me\<lparr>getX := x', getY := y',
               breedCount :=
                 (if DOODLE_BREED \<le> breedCount me + 1 then 0 else breedCount me + 1),
               starveCount := (if ([] :: addr list) = [] then starveCount me + 1 else 0)\<rparr>)"
        by (simp add: d't)
      show "(x', y') = (getX me, getY me) \<or> (x', y') \<in> set ?N" by (rule h(10))
      show "v \<noteq> this \<and> getCell w x' y' = Some v \<and>
         getCell w' x' y' = Some this \<and> (\<exists>ov. deref w v = Some ov \<and> kind ov = Ant)"
        if "v \<in> set []" for v
        using that by simp
      show "deref w' b = deref w b" if "b \<noteq> this" "deref w b \<noteq> None" for b
        using that d' [of b] by (simp add: h(11))
      show "n \<noteq> this \<and> (deref w n = None \<or> n \<in> set []) \<and>
         (\<exists>nx ny. (nx, ny) \<in> set ?N \<and> deref w' n = Some (Doodlebug_new nx ny) \<and>
                  getCell w' nx ny = Some n)" if "n \<in> set nbs" for n
      proof -
        from nw [OF that] obtain nx ny where
          f: "n \<noteq> this" "deref w2 n = None" "(nx, ny) \<in> set ns"
            "deref w' n = Some (Doodlebug_new nx ny)" "getCell w' nx ny = Some n"
          by blast
        have "deref w n = None" using f(1,2) by (simp add: h(11))
        moreover have "(nx, ny) \<in> set ?N" using f(3) by (simp add: h(3))
        ultimately show ?thesis using f(1,4,5) by blast
      qed
      show "rnd w' =
         (if DOODLE_BREED \<le> breedCount me + 1
          then tl (if ([] :: addr list) = [] then tl (tl (rnd w)) else tl (rnd w))
          else (if ([] :: addr list) = [] then tl (tl (rnd w)) else tl (rnd w)))"
        by (simp add: rn' h(8))
    qed
  next
    case (2 pre nx ny post v ov w2)
    note h = 2
    let ?ns = "fst (shuffle_gen ?N w)"
    have sn: "set ?ns = set ?N" by (simp add: shuffle_gen_parts)
    have m: "(nx, ny) \<in> set ?N" using h(1) sn by (metis in_set_conv_decomp)
    have nb2: "\<forall>c \<in> set ?ns. inBounds w2 (fst c) (snd c)"
      using nbN by (simp add: inBounds_def sn h(11))
    have hv: "holds_Ant w (nx, ny)" using h(3,4,5) by (simp add: holds_Ant_def)
    have npos: "\<not> (nx = getX me \<and> ny = getY me)" using pos h(3) h(6) by auto
    have g2: "getCell w2 nx ny = Some this" using npos by (simp add: h(17))
    obtain w' nbs where
      bp: "breed_phase DOODLE_BREED createDoodlebug ?ns this w2 = Some w'"
      and c': "consistent w'"
      and sz': "size_w w' = size_w w2" and ag': "age w' = age w2"
      and al': "allOrgs w' = allOrgs w2 @ nbs" and ln: "length nbs \<le> 1"
      and d't: "deref w' this =
         Some (me\<lparr>getX := nx, getY := ny, starveCount := 0\<rparr>
           \<lparr>breedCount :=
              (if DOODLE_BREED \<le>
                    breedCount (me\<lparr>getX := nx, getY := ny, starveCount := 0\<rparr>) + 1
               then 0
               else breedCount (me\<lparr>getX := nx, getY := ny, starveCount := 0\<rparr>) + 1)\<rparr>)"
      and d': "\<And>b. b \<noteq> this \<Longrightarrow> deref w2 b \<noteq> None \<Longrightarrow> deref w' b = deref w2 b"
      and g': "\<And>x y. getCell w2 x y \<noteq> None \<Longrightarrow> getCell w' x y = getCell w2 x y"
      and nw: "\<And>n. n \<in> set nbs \<Longrightarrow> n \<noteq> this \<and> deref w2 n = None \<and>
         (\<exists>nx ny. (nx, ny) \<in> set ?ns \<and> getCell w2 nx ny = None \<and>
                  deref w' n = Some (Doodlebug_new nx ny) \<and> getCell w' nx ny = Some n)"
      and rn': "rnd w' =
         (if DOODLE_BREED \<le>
               breedCount (me\<lparr>getX := nx, getY := ny, starveCount := 0\<rparr>) + 1
          then tl (rnd w2) else rnd w2)"
      by (rule breed_phase_effect
            [OF h(8) h(10) h(14) nb2 createDoodlebug_place mk, where t = DOODLE_BREED])
        (rule that)
    have u: "Doodlebug_update this w = Some w'"
      using s by (simp add: Doodlebug_update_def d h(7) bp)
    show ?case
    proof (rule that [where vs = "[v]"])
      show "Doodlebug_update this w = Some w'" by (rule u)
      show "consistent w'" by (rule c')
      show "size_w w' = size_w w" by (simp add: sz' h(11))
      show "age w' = age w" by (simp add: ag' h(12))
      show "allOrgs w' = foldr remove1 [v] (allOrgs w) @ nbs" by (simp add: al' h(9))
      show "length [v] \<le> 1" by simp
      show "length nbs \<le> 1" by (rule ln)
      show "([v] = []) = (\<forall>c \<in> set ?N. \<not> holds_Ant w c)" using hv m by auto
      show "deref w' this =
         Some (me\<lparr>getX := nx, getY := ny,
               breedCount :=
                 (if DOODLE_BREED \<le> breedCount me + 1 then 0 else breedCount me + 1),
               starveCount := (if [v] = [] then starveCount me + 1 else 0)\<rparr>)"
        by (simp add: d't)
      show "(nx, ny) = (getX me, getY me) \<or> (nx, ny) \<in> set ?N" using m by simp
      show "v' \<noteq> this \<and> getCell w nx ny = Some v' \<and>
         getCell w' nx ny = Some this \<and> (\<exists>ov. deref w v' = Some ov \<and> kind ov = Ant)"
        if "v' \<in> set [v]" for v'
        using that h(3,4,5,6) g' [of nx ny] g2 by simp
      show "deref w' b = deref w b" if "b \<noteq> this" "b \<notin> set [v]" "deref w b \<noteq> None" for b
        using that d' [of b] h(16) [of b] by simp
      show "n \<noteq> this \<and> (deref w n = None \<or> n \<in> set [v]) \<and>
         (\<exists>nx ny. (nx, ny) \<in> set ?N \<and> deref w' n = Some (Doodlebug_new nx ny) \<and>
                  getCell w' nx ny = Some n)" if "n \<in> set nbs" for n
      proof -
        from nw [OF that] obtain mx my where
          f: "n \<noteq> this" "deref w2 n = None" "(mx, my) \<in> set ?ns"
            "deref w' n = Some (Doodlebug_new mx my)" "getCell w' mx my = Some n"
          by blast
        have "deref w n = None \<or> n \<in> set [v]" using f(1,2) h(16) [of n] by auto
        moreover have "(mx, my) \<in> set ?N" using f(3) sn by simp
        ultimately show ?thesis using f(1,4,5) by blast
      qed
      show "rnd w' =
         (if DOODLE_BREED \<le> breedCount me + 1
          then tl (if [v] = [] then tl (tl (rnd w)) else tl (rnd w))
          else (if [v] = [] then tl (tl (rnd w)) else tl (rnd w)))"
        by (simp add: rn' h(13))
    qed
  qed
qed

subsection \<open>Updates and ticks keep grid and registry consistent\<close>

lemma create_size [simp]:
  "size_w (createAnt w x y) = size_w w" "size_w (createDoodlebug w x y) = size_w w"
  by (simp_all add: createAnt_def createDoodlebug_def new_org_def Let_def)

lemma Organism_update_consistent:
  assumes c: "consistent w" and a: "this \<in> set (allOrgs w)"
  shows "\<exists>w'. Organism_update this w = Some w' \<and> consistent w' \<and>
              size_w w' = size_w w \<and> age w' = age w"
proof -
  obtain me where d: "deref w this = Some me"
    using c a by (rule consistent_registered)
  show ?thesis
  proof (cases "kind me")
    case Ant
    obtain w' where "Ant_update this w = Some w'" "consistent w'" "size_w w' = size_w w"
      "age w' = age w"
      by (rule Ant_update_effect [OF c a d]) (rule that)
    then show ?thesis using d Ant by (simp add: Organism_update_def)
  next
    case Doodlebug
    show ?thesis
    proof (cases "starve me")
      case True
      then show ?thesis
        using d Doodlebug Doodlebug_starve_effect [OF c a d True]
        by (simp add: Organism_update_def)
    next
      case False
      obtain w' where "Doodlebug_update this w = Some w'" "consistent w'"
        "size_w w' = size_w w" "age w' = age w"
        by (rule Doodlebug_update_effect [OF c a d Doodlebug False]) (rule that)
      then show ?thesis using d Doodlebug by (simp add: Organism_update_def)
    qed
  qed
qed

lemma update_loop_consistent:
  "consistent w \<Longrightarrow>
   \<exists>called w'. update_loop snapshot w = Some (called, w') \<and> consistent w' \<and>
                size_w w' = size_w w \<and> age w' = age w"
proof (induction snapshot arbitrary: w)
  case Nil
  then show ?case by simp
next
  case (Cons p snapshot)
  show ?case
  proof (cases "p \<in> set (allOrgs w)")
    case False
    then show ?thesis using Cons.IH [OF Cons.prems] by simp
  next
    case True
    from Organism_update_consistent [OF Cons.prems True] obtain w1 where
      u: "Organism_update p w = Some w1" and c1: "consistent w1"
      and f1: "size_w w1 = size_w w" "age w1 = age w"
      by blast
    from Cons.IH [OF c1] obtain called w' where
      "update_loop snapshot w1 = Some (called, w')" "consistent w'"
      "size_w w' = size_w w1" "age w' = age w1"
      by blast
    then show ?thesis using True u f1 by simp
  qed
qed

lemma World_update_consistent:
  assumes "consistent w"
  shows "\<exists>called w'. World_update w = Some (called, w') \<and> consistent w' \<and>
                     size_w w' = size_w w \<and> age w' = age w + 1"
proof -
  let ?w1 = "w\<lparr>age := age w + 1\<rparr>"
  let ?snap = "fst (shuffle_gen (allOrgs ?w1) ?w1)"
  let ?w2 = "snd (shuffle_gen (allOrgs ?w1) ?w1)"
  have "consistent ?w2" using assms by (simp add: shuffle_gen_parts)
  from update_loop_consistent [OF this, of ?snap] obtain called w' where
    "update_loop ?snap ?w2 = Some (called, w')" "consistent w'"
    "size_w w' = size_w ?w2" "age w' = age ?w2"
    by blast
  moreover have "World_update w = update_loop ?snap ?w2"
    by (simp add: World_update_def Let_def case_prod_unfold)
  ultimately show ?thesis by (simp add: shuffle_gen_parts)
qed

lemma reachable_consistent: "reachable w \<Longrightarrow> consistent w"
proof (induction rule: reachable.induct)
  case (constructed n rs hs)
  then show ?case by (rule consistent_World)
next
  case (placed_ant w x y)
  then show ?case by (simp add: consistent_createAnt)
next
  case (placed_doodlebug w x y)
  then show ?case by (simp add: consistent_createDoodlebug)
next
  case (ticked w called w')
  from World_update_consistent [OF ticked.IH] ticked.hyps(2) show ?case by auto
qed

lemma consistent_one_cell:
  assumes "consistent w" "getCell w x y = Some a" "getCell w x2 y2 = Some a"
  shows "x = x2 \<and> y = y2"
proof -
  from assms(1,2) obtain org where "deref w a = Some org" "getX org = x" "getY org = y"
    by (rule consistent_occupant)
  moreover from assms(1,3) obtain org2 where
    "deref w a = Some org2" "getX org2 = x2" "getY org2 = y2"
    by (rule consistent_occupant)
  ultimately show ?thesis by simp
qed

subsection \<open>What an update does to the other organisms\<close>

lemma Organism_update_others:
  assumes c: "consistent w" and a: "other \<in> set (allOrgs w)"
    and ne: "b \<noteq> other" and db: "deref w b = Some ob"
  shows "\<exists>w'. Organism_update other w = Some w' \<and>
           (deref w' b = Some ob \<or>
            kind ob = Ant \<and> getCell w (getX ob) (getY ob) = Some b \<and>
            getCell w' (getX ob) (getY ob) = Some other)"
proof -
  obtain me where d: "deref w other = Some me"
    using c a by (rule consistent_registered)
  show ?thesis
  proof (cases "kind me")
    case Ant
    obtain w' where "Ant_update other w = Some w'"
      "\<And>b. b \<noteq> other \<Longrightarrow> deref w b \<noteq> None \<Longrightarrow> deref w' b = deref w b"
      by (rule Ant_update_effect [OF c a d]) (rule that)
    then show ?thesis using d Ant ne db by (simp add: Organism_update_def)
  next
    case Doodlebug
    show ?thesis
    proof (cases "starve me")
      case True
      have "deref (removed other (getX me) (getY me) w) b = Some ob"
        using ne db by (simp add: deref_removed)
      then show ?thesis
        using d Doodlebug True Doodlebug_starve_effect(1) [OF c a d True]
        by (simp add: Organism_update_def)
    next
      case False
      obtain w' x' y' vs where u: "Doodlebug_update other w = Some w'"
        and v: "\<And>v. v \<in> set vs \<Longrightarrow> v \<noteq> other \<and> getCell w x' y' = Some v \<and>
           getCell w' x' y' = Some other \<and> (\<exists>ov. deref w v = Some ov \<and> kind ov = Ant)"
        and f: "\<And>b. b \<noteq> other \<Longrightarrow> b \<notin> set vs \<Longrightarrow> deref w b \<noteq> None \<Longrightarrow>
           deref w' b = deref w b"
        by (rule Doodlebug_update_effect [OF c a d Doodlebug False]) (rule that)
      have "deref w' b = Some ob \<or>
            kind ob = Ant \<and> getCell w (getX ob) (getY ob) = Some b \<and>
            getCell w' (getX ob) (getY ob) = Some other"
      proof (cases "b \<in> set vs")
        case False
        then show ?thesis using f [of b] ne db by simp
      next
        case True
        from v [OF True] have g: "getCell w x' y' = Some b" "getCell w' x' y' = Some other"
          and k: "kind ob = Ant"
          using db by auto
        from c g(1) obtain org where "deref w b = Some org" "getX org = x'" "getY org = y'"
          by (rule consistent_occupant)
        with db have "getX ob = x'" "getY ob = y'" by simp_all
        then show ?thesis using g k by simp
      qed
      then show ?thesis using u d Doodlebug by (simp add: Organism_update_def)
    qed
  qed
qed

subsection \<open>The scheduler's loop\<close>

lemma update_loop_called:
  "update_loop snapshot w = Some (called, w') \<Longrightarrow>
   subseq called snapshot \<and> set called \<subseteq> set snapshot \<and> (distinct snapshot \<longrightarrow> distinct called)"
proof (induction snapshot arbitrary: w called)
  case Nil
  then show ?case by simp
next
  case (Cons p snapshot)
  show ?case
  proof (cases "p \<in> set (allOrgs w)")
    case False
    with Cons.prems have "update_loop snapshot w = Some (called, w')" by simp
    from Cons.IH [OF this] show ?thesis by auto
  next
    case True
    with Cons.prems obtain w1 c2 where
      "update_loop snapshot w1 = Some (c2, w')" and called: "called = p # c2"
      by (auto split: option.splits prod.splits simp: bind_eq_Some_conv)
    from Cons.IH [OF this(1)] show ?thesis using called by auto
  qed
qed

lemma update_loop_append:
  "update_loop (xs @ ys) w =
     (case update_loop xs w of None \<Rightarrow> None
      | Some (c1, w1) \<Rightarrow>
          (case update_loop ys w1 of None \<Rightarrow> None
           | Some (c2, w2) \<Rightarrow> Some (c1 @ c2, w2)))"
proof (induction xs arbitrary: w)
  case Nil
  show ?case by (simp split: option.splits)
next
  case (Cons p xs)
  show ?case
  proof (cases "p \<in> set (allOrgs w)")
    case False
    then show ?thesis using Cons [of w] by simp
  next
    case True
    show ?thesis
    proof (cases "Organism_update p w")
      case None
      then show ?thesis using True by simp
    next
      case (Some w1)
      then show ?thesis using True Cons [of w1] by (simp split: option.splits)
    qed
  qed
qed

subsection \<open>Evaluating concrete worlds\<close>

lemma small_ranges: "{0..<1::int} = {0}" "{0..<2::int} = {0, 1}" "{0..<3::int} = {0, 1, 2}"
  by auto

lemmas run_defs =
  World_update_def update_loop.simps Organism_update_def Ant_update_def Doodlebug_update_def
  Doodlebug_hunt_def breed_phase_def starve_def starveCount_inc_def holds_Ant_def
  deref_def getNeighbors_def dirs_def inBounds_def shuffle_gen_def getCell_def setCell_def
  deleteCell_def delete_org_def setPos_def store_def incBreed_def resetBreed_def
  ANT_BREED_def DOODLE_BREED_def DOODLE_STARVE_def createAnt_def createDoodlebug_def
  new_org_def Ant_new_def Doodlebug_new_def World_def

subsection \<open>Predation and scheduling: what holds in general\<close>

text \<open>
  A doodlebug that is not starving, with an ant in some neighbouring cell: in the
  freshly shuffled vector \<open>neighbors\<close> let \<open>(nx, ny)\<close> be the first cell holding an ant
  \<open>v\<close>.  After the predation phase \<open>v\<close> is gone from the registry, from every grid cell
  and from the free store; the doodlebug sits in \<open>(nx, ny)\<close> with \<open>starveCount = 0\<close>; its
  former cell is empty; the movement phase did not run (only one shuffle was consumed);
  grid and registry are consistent.  All this is in place before the doodlebug's own
  breeding phase, hence before any other organism's update.  The address of \<open>v\<close> is
  free from then on, and nothing here keeps a later \<open>new\<close> from handing it out again.
\<close>

lemma predation_removes_first_ant:
  assumes "consistent w" "this \<in> set (allOrgs w)" "deref w this = Some me"
    "kind me = Doodlebug" "starveCount me < DOODLE_STARVE"
    "\<exists>c \<in> set (getNeighbors w (getX me) (getY me)). holds_Ant w c"
  shows "\<exists>pre nx ny post v ov w1.
           fst (shuffle_gen (getNeighbors w (getX me) (getY me)) w) = pre @ (nx, ny) # post \<and>
           (\<forall>c \<in> set pre. \<not> holds_Ant w c) \<and>
           getCell w nx ny = Some v \<and> deref w v = Some ov \<and> kind ov = Ant \<and>
           Doodlebug_hunt (getNeighbors w (getX me) (getY me)) this w =
             Some (pre @ (nx, ny) # post, w1) \<and>
           Organism_update this w =
             breed_phase DOODLE_BREED createDoodlebug (pre @ (nx, ny) # post) this w1 \<and>
           allOrgs w1 = remove1 v (allOrgs w) \<and> v \<notin> set (allOrgs w1) \<and>
           deref w1 v = None \<and> (\<forall>x y. getCell w1 x y \<noteq> Some v) \<and>
           getCell w1 nx ny = Some this \<and> getCell w1 (getX me) (getY me) = None \<and>
           deref w1 this = Some (me\<lparr>getX := nx, getY := ny, starveCount := 0\<rparr>) \<and>
           rnd w1 = tl (rnd w) \<and> consistent w1"
proof -
  let ?N = "getNeighbors w (getX me) (getY me)"
  have s: "\<not> starve me" using assms(5) by (simp add: starve_def)
  have pos: "getCell w (getX me) (getY me) = Some this"
    using assms(1-3) by (rule registered_position)
  have di: "distinct (allOrgs w)" using assms(1) by (simp add: consistent_def)
  show ?thesis
  proof (rule Doodlebug_hunt_effect
      [OF assms(1-4) getNeighbors_all_inBounds [of w "getX me" "getY me"]], goal_cases)
    case (1 ns w' x' y')
    then show ?case using assms(6) by blast
  next
    case (2 pre nx ny post v ov w1)
    note h = 2
    have npos: "\<not> (nx = getX me \<and> ny = getY me)" using pos h(3) h(6) by auto
    have u: "Organism_update this w =
        breed_phase DOODLE_BREED createDoodlebug (pre @ (nx, ny) # post) this w1"
      using s assms(3,4) h(7) by (simp add: Organism_update_def Doodlebug_update_def h(1))
    have nv: "v \<notin> set (allOrgs w1)" using di by (simp add: h(9))
    have gv: "getCell w1 x y \<noteq> Some v" for x y
    proof
      assume "getCell w1 x y = Some v"
      with h(8) obtain org where "deref w1 v = Some org" by (rule consistent_occupant)
      with h(15) show False by simp
    qed
    have "getCell w1 nx ny = Some this" "getCell w1 (getX me) (getY me) = None"
      using npos by (simp_all add: h(17))
    then show ?case
      using h(1-5) h(7) [unfolded h(1)] u h(9) nv h(15) gv h(14) h(13) h(8) by blast
  qed
qed

lemma predation_removes_first_ant_example:
  "consistent \<lparr>size_w = 2, age = 0, grid = [[Some 0, Some 1], [None, None]], allOrgs = [0, 1],
       heap = [Some \<lparr>getX = 0, getY = 0, breedCount = 0, kind = Doodlebug, starveCount = 2\<rparr>,
               Some \<lparr>getX = 0, getY = 1, breedCount = 0, kind = Ant, starveCount = 0\<rparr>],
       rnd = [], allocs = []\<rparr> \<and>
   (\<exists>ns w1. Doodlebug_hunt
       (getNeighbors
         \<lparr>size_w = 2, age = 0, grid = [[Some 0, Some 1], [None, None]], allOrgs = [0, 1],
          heap = [Some \<lparr>getX = 0, getY = 0, breedCount = 0, kind = Doodlebug, starveCount = 2\<rparr>,
               Some \<lparr>getX = 0, getY = 1, breedCount = 0, kind = Ant, starveCount = 0\<rparr>],
          rnd = [], allocs = []\<rparr> 0 0) 0
       \<lparr>size_w = 2, age = 0, grid = [[Some 0, Some 1], [None, None]], allOrgs = [0, 1],
       heap = [Some \<lparr>getX = 0, getY = 0, breedCount = 0, kind = Doodlebug, starveCount = 2\<rparr>,
               Some \<lparr>getX = 0, getY = 1, breedCount = 0, kind = Ant, starveCount = 0\<rparr>],
       rnd = [], allocs = []\<rparr> = Some (ns, w1) \<and>
       getCell w1 0 0 = None \<and> consistent w1 \<and> rnd w1 = [])"
proof -
  let ?me = "\<lparr>getX = 0, getY = 0, breedCount = 0, kind = Doodlebug, starveCount = 2\<rparr>"
  let ?w = "\<lparr>size_w = 2, age = 0, grid = [[Some 0, Some 1], [None, None]], allOrgs = [0, 1],
       heap = [Some ?me,
               Some \<lparr>getX = 0, getY = 1, breedCount = 0, kind = Ant, starveCount = 0\<rparr>],
       rnd = [], allocs = []\<rparr>"
  have c: "consistent ?w"
    by (simp add: consistent_def wf_grid_def deref_def getCell_def inBounds_def small_ranges)
  have a: "0 \<in> set (allOrgs ?w)" by simp
  have d: "deref ?w 0 = Some ?me" by (simp add: deref_def)
  have k: "kind ?me = Doodlebug" by simp
  have s: "starveCount ?me < DOODLE_STARVE" by (simp add: DOODLE_STARVE_def)
  have "(0, 1) \<in> set (getNeighbors ?w (getX ?me) (getY ?me))"
    by (simp add: getNeighbors_def dirs_def inBounds_def)
  moreover have "holds_Ant ?w (0, 1)"
    by (simp add: holds_Ant_def getCell_def deref_def inBounds_def)
  ultimately have h: "\<exists>c \<in> set (getNeighbors ?w (getX ?me) (getY ?me)). holds_Ant ?w c"
    by blast
  from predation_removes_first_ant [OF c a d k s h] show ?thesis
    using c by auto
qed

text \<open>
  One tick from a consistent world.  The list of receivers of the calls
  of line 265 has no repetition and is a subsequence of the shuffled snapshot:
  every snapshot entry is invoked at most once.  And the entry \<open>p\<close> is invoked exactly
  when \<open>p\<close> is in the live registry at the moment its turn comes, that is in the state
  left by the entries before it, and the call then goes to a live object.  An entry
  whose pointer has left the registry and has not come back is skipped; one whose pointer
  has come back, for another organism, is not.
\<close>

lemma update_invoked_at_most_once:
  assumes "consistent w"
  shows "\<exists>called w'.
           World_update w = Some (called, w') \<and> distinct called \<and>
           subseq called (fst (shuffle_gen (allOrgs w) (w\<lparr>age := age w + 1\<rparr>))) \<and>
           set called \<subseteq> set (allOrgs w) \<and>
           (\<forall>pre p post.
              fst (shuffle_gen (allOrgs w) (w\<lparr>age := age w + 1\<rparr>)) = pre @ p # post \<longrightarrow>
              (\<exists>c1 w1.
                 update_loop pre (snd (shuffle_gen (allOrgs w) (w\<lparr>age := age w + 1\<rparr>))) =
                   Some (c1, w1) \<and>
                 (p \<in> set called \<longleftrightarrow> p \<in> set (allOrgs w1)) \<and>
                 (p \<in> set called \<longrightarrow> (\<exists>org. deref w1 p = Some org))))"
proof -
  let ?w1 = "w\<lparr>age := age w + 1\<rparr>"
  let ?snap = "fst (shuffle_gen (allOrgs w) ?w1)"
  let ?w2 = "snd (shuffle_gen (allOrgs w) ?w1)"
  have c2: "consistent ?w2" using assms by (simp add: shuffle_gen_parts)
  have ds: "distinct ?snap" using assms by (simp add: shuffle_gen_parts consistent_def)
  have ss: "set ?snap = set (allOrgs w)" by (simp add: shuffle_gen_parts)
  have wu: "World_update w = update_loop ?snap ?w2"
    by (simp add: World_update_def Let_def case_prod_unfold)
  from update_loop_consistent [OF c2, of ?snap] obtain called w' where
    ul: "update_loop ?snap ?w2 = Some (called, w')"
    by blast
  from update_loop_called [OF ul] have
    sub: "subseq called ?snap" and st: "set called \<subseteq> set ?snap" and dc: "distinct called"
    using ds by simp_all
  have turn: "\<exists>c1 w1. update_loop pre ?w2 = Some (c1, w1) \<and>
                 (p \<in> set called \<longleftrightarrow> p \<in> set (allOrgs w1)) \<and>
                 (p \<in> set called \<longrightarrow> (\<exists>org. deref w1 p = Some org))"
    if dec: "?snap = pre @ p # post" for pre p post
  proof -
    from ul dec have a: "update_loop (pre @ p # post) ?w2 = Some (called, w')" by simp
    then obtain c1 w1 c2 where
      u1: "update_loop pre ?w2 = Some (c1, w1)"
      and u2: "update_loop (p # post) w1 = Some (c2, w')" and cl: "called = c1 @ c2"
      by (auto simp: update_loop_append split: option.splits)
    have d: "p \<notin> set pre" "p \<notin> set post" using ds dec by auto
    have p1: "p \<notin> set c1" using update_loop_called [OF u1] d by auto
    have "p \<in> set c2 \<longleftrightarrow> p \<in> set (allOrgs w1)"
    proof (cases "p \<in> set (allOrgs w1)")
      case False
      with u2 have "update_loop post w1 = Some (c2, w')" by simp
      from update_loop_called [OF this] d False show ?thesis by auto
    next
      case True
      with u2 obtain c3 where "c2 = p # c3"
        by (auto split: option.splits prod.splits simp: bind_eq_Some_conv)
      with True show ?thesis by simp
    qed
    then have iff: "p \<in> set called \<longleftrightarrow> p \<in> set (allOrgs w1)" using cl p1 by auto
    from update_loop_consistent [OF c2, of pre] u1 have c1: "consistent w1" by auto
    have "\<exists>org. deref w1 p = Some org" if "p \<in> set called"
    proof -
      from that iff have "p \<in> set (allOrgs w1)" by simp
      with c1 obtain org where "deref w1 p = Some org" by (rule consistent_registered)
      then show ?thesis by blast
    qed
    then show ?thesis using u1 iff by blast
  qed
  show ?thesis
    using wu ul dc sub st ss turn by (intro exI [of _ called] exI [of _ w']) auto
qed

lemma update_invoked_at_most_once_example:
  "consistent \<lparr>size_w = 2, age = 0, grid = [[Some 0, Some 1], [None, None]], allOrgs = [0, 1],
       heap = [Some \<lparr>getX = 0, getY = 0, breedCount = 0, kind = Doodlebug, starveCount = 2\<rparr>,
               Some \<lparr>getX = 0, getY = 1, breedCount = 0, kind = Ant, starveCount = 0\<rparr>],
       rnd = [], allocs = []\<rparr> \<and>
   (\<exists>w'. World_update
       \<lparr>size_w = 2, age = 0, grid = [[Some 0, Some 1], [None, None]], allOrgs = [0, 1],
       heap = [Some \<lparr>getX = 0, getY = 0, breedCount = 0, kind = Doodlebug, starveCount = 2\<rparr>,
               Some \<lparr>getX = 0, getY = 1, breedCount = 0, kind = Ant, starveCount = 0\<rparr>],
       rnd = [], allocs = []\<rparr> = Some ([0], w') \<and> 1 \<notin> set (allOrgs w'))"
proof -
  let ?w = "\<lparr>size_w = 2, age = 0, grid = [[Some 0, Some 1], [None, None]], allOrgs = [0, 1],
       heap = [Some \<lparr>getX = 0, getY = 0, breedCount = 0, kind = Doodlebug, starveCount = 2\<rparr>,
               Some \<lparr>getX = 0, getY = 1, breedCount = 0, kind = Ant, starveCount = 0\<rparr>],
       rnd = [], allocs = []\<rparr>"
  have c: "consistent ?w"
    by (simp add: consistent_def wf_grid_def deref_def getCell_def inBounds_def small_ranges)
  have e: "\<exists>w'. World_update ?w = Some ([0], w') \<and> 1 \<notin> set (allOrgs w')"
    by (simp add: run_defs)
  from update_invoked_at_most_once [OF c] e show ?thesis using c by blast
qed

subsection \<open>The run with the re-used address\<close>

lemma reuse_start_eq:
  "reuse_start =
     \<lparr>size_w = 3, age = 0,
      grid = [[None, Some 0, None], [None, None, None], [Some 2, None, Some 1]],
      allOrgs = [0, 1, 2],
      heap = [Some \<lparr>getX = 0, getY = 1, breedCount = 0, kind = Doodlebug, starveCount = 0\<rparr>,
              Some \<lparr>getX = 2, getY = 2, breedCount = 0, kind = Ant, starveCount = 0\<rparr>,
              Some \<lparr>getX = 2, getY = 0, breedCount = 0, kind = Ant, starveCount = 0\<rparr>],
      rnd = [], allocs = [2]\<rparr>"
  by (simp add: reuse_start_def run_defs numeral_3_eq_3)

lemma reuse_first_tick: "World_update reuse_start = Some ([0, 1, 2], reuse_tick1)"
  unfolding reuse_start_eq by (simp add: reuse_tick1_def run_defs)

lemma reuse_second_tick: "World_update reuse_tick1 = Some ([0, 1, 2], reuse_tick2)"
  by (simp add: reuse_tick1_def reuse_tick2_def run_defs)

lemma reuse_start_reachable: "reachable reuse_start"
proof -
  have r0: "reachable (World 3 [] [0, 1, 2, 2])" by (rule reachable.constructed) simp
  have i0: "inBounds (World 3 [] [0, 1, 2, 2]) 0 1" by (simp add: inBounds_def World_def)
  have i1: "inBounds (createDoodlebug (World 3 [] [0, 1, 2, 2]) 0 1) 2 2"
    by (simp add: inBounds_def World_def)
  have i2: "inBounds (createAnt (createDoodlebug (World 3 [] [0, 1, 2, 2]) 0 1) 2 2) 2 0"
    by (simp add: inBounds_def World_def)
  show ?thesis
    unfolding reuse_start_def
    by (intro reachable.placed_ant reachable.placed_doodlebug r0 i0 i1 i2)
qed

lemma reuse_tick2_reachable: "reachable reuse_tick2"
  using reuse_start_reachable reuse_first_tick reuse_second_tick
  by (blast intro: reachable.ticked)

lemma reuse_tick2_consistent: "consistent reuse_tick2"
  using reuse_tick2_reachable by (rule reachable_consistent)

section \<open>The claims\<close>

text \<open>
  C1 (as amended).  The vector \<open>neighbors\<close> is filled once per update, from the position
  the organism has when its update begins, and is only shuffled again before each later
  phase (one shuffle per phase that runs).  So every target of the update lies in the
  neighbour set of that initial position: the cell moved into, the cell of the ant eaten,
  and the cell of the offspring - also when the organism has moved in between.
\<close>

theorem targets_among_initial_neighbors:
  assumes "consistent w" "this \<in> set (allOrgs w)" "deref w this = Some me"
    "kind me = Doodlebug \<longrightarrow> starveCount me < DOODLE_STARVE"
  shows "\<exists>w' me' vs nbs.
           Organism_update this w = Some w' \<and> deref w' this = Some me' \<and>
           ((getX me', getY me') = (getX me, getY me) \<or>
            (getX me', getY me') \<in> set (getNeighbors w (getX me) (getY me))) \<and>
           allOrgs w' = foldr remove1 vs (allOrgs w) @ nbs \<and>
           (\<forall>v \<in> set vs. getCell w (getX me') (getY me') = Some v \<and>
              (getX me', getY me') \<in> set (getNeighbors w (getX me) (getY me))) \<and>
           (\<forall>n \<in> set nbs. \<exists>nx ny.
              (nx, ny) \<in> set (getNeighbors w (getX me) (getY me)) \<and>
              getCell w' nx ny = Some n \<and>
              deref w' n =
                Some (case kind me of Ant \<Rightarrow> Ant_new nx ny | Doodlebug \<Rightarrow> Doodlebug_new nx ny)) \<and>
           rnd w' =
             (if (case kind me of Ant \<Rightarrow> ANT_BREED | Doodlebug \<Rightarrow> DOODLE_BREED)
                   \<le> breedCount me + 1
              then tl (if kind me = Doodlebug \<and> vs = [] then tl (tl (rnd w)) else tl (rnd w))
              else (if kind me = Doodlebug \<and> vs = [] then tl (tl (rnd w)) else tl (rnd w)))"
proof (cases "kind me")
  case Ant
  obtain w' x' y' nbs where
    u: "Ant_update this w = Some w'"
    and al: "allOrgs w' = allOrgs w @ nbs"
    and d': "deref w' this =
       Some (me\<lparr>getX := x', getY := y',
               breedCount := (if ANT_BREED \<le> breedCount me + 1 then 0 else breedCount me + 1)\<rparr>)"
    and p: "(x', y') = (getX me, getY me) \<or> (x', y') \<in> set (getNeighbors w (getX me) (getY me))"
    and nw: "\<And>n. n \<in> set nbs \<Longrightarrow> n \<noteq> this \<and> deref w n = None \<and>
       (\<exists>nx ny. (nx, ny) \<in> set (getNeighbors w (getX me) (getY me)) \<and>
                deref w' n = Some (Ant_new nx ny) \<and> getCell w' nx ny = Some n)"
    and rn: "rnd w' = (if ANT_BREED \<le> breedCount me + 1 then tl (tl (rnd w)) else tl (rnd w))"
    by (rule Ant_update_effect [OF assms(1-3)]) (rule that)
  have "Organism_update this w = Some w'"
    using u assms(3) Ant by (simp add: Organism_update_def)
  moreover have "allOrgs w' = foldr remove1 [] (allOrgs w) @ nbs" by (simp add: al)
  moreover have "\<forall>n \<in> set nbs. \<exists>nx ny.
              (nx, ny) \<in> set (getNeighbors w (getX me) (getY me)) \<and>
              getCell w' nx ny = Some n \<and>
              deref w' n =
                Some (case kind me of Ant \<Rightarrow> Ant_new nx ny | Doodlebug \<Rightarrow> Doodlebug_new nx ny)"
  proof
    fix n assume "n \<in> set nbs"
    from nw [OF this] obtain nx ny where
      "(nx, ny) \<in> set (getNeighbors w (getX me) (getY me))"
      "deref w' n = Some (Ant_new nx ny)" "getCell w' nx ny = Some n"
      by blast
    then show "\<exists>nx ny.
              (nx, ny) \<in> set (getNeighbors w (getX me) (getY me)) \<and>
              getCell w' nx ny = Some n \<and>
              deref w' n =
                Some (case kind me of Ant \<Rightarrow> Ant_new nx ny | Doodlebug \<Rightarrow> Doodlebug_new nx ny)"
      using Ant by auto
  qed
  ultimately show ?thesis
    using d' p rn Ant
    by (intro exI [of _ w'] exI [of _ "[]"] exI [of _ nbs]
        exI [of _ "me\<lparr>getX := x', getY := y',
               breedCount := (if ANT_BREED \<le> breedCount me + 1 then 0 else breedCount me + 1)\<rparr>"])
      simp
next
  case Doodlebug
  then have s: "\<not> starve me" using assms(4) by (simp add: starve_def)
  have pos: "getCell w (getX me) (getY me) = Some this"
    using assms(1-3) by (rule registered_position)
  obtain w' x' y' vs nbs where
    u: "Doodlebug_update this w = Some w'"
    and al: "allOrgs w' = foldr remove1 vs (allOrgs w) @ nbs"
    and d': "deref w' this =
       Some (me\<lparr>getX := x', getY := y',
               breedCount :=
                 (if DOODLE_BREED \<le> breedCount me + 1 then 0 else breedCount me + 1),
               starveCount := (if vs = [] then starveCount me + 1 else 0)\<rparr>)"
    and p: "(x', y') = (getX me, getY me) \<or> (x', y') \<in> set (getNeighbors w (getX me) (getY me))"
    and v: "\<And>v. v \<in> set vs \<Longrightarrow> v \<noteq> this \<and> getCell w x' y' = Some v \<and>
       getCell w' x' y' = Some this \<and> (\<exists>ov. deref w v = Some ov \<and> kind ov = Ant)"
    and nw: "\<And>n. n \<in> set nbs \<Longrightarrow> n \<noteq> this \<and> (deref w n = None \<or> n \<in> set vs) \<and>
       (\<exists>nx ny. (nx, ny) \<in> set (getNeighbors w (getX me) (getY me)) \<and>
                deref w' n = Some (Doodlebug_new nx ny) \<and> getCell w' nx ny = Some n)"
    and rn: "rnd w' =
       (if DOODLE_BREED \<le> breedCount me + 1
        then tl (if vs = [] then tl (tl (rnd w)) else tl (rnd w))
        else (if vs = [] then tl (tl (rnd w)) else tl (rnd w)))"
    by (rule Doodlebug_update_effect [OF assms(1-3) Doodlebug s]) (rule that)
  have "Organism_update this w = Some w'"
    using u assms(3) Doodlebug by (simp add: Organism_update_def)
  moreover have "\<forall>v \<in> set vs. getCell w x' y' = Some v \<and>
      (x', y') \<in> set (getNeighbors w (getX me) (getY me))"
  proof
    fix v' assume "v' \<in> set vs"
    from v [OF this] have "v' \<noteq> this" "getCell w x' y' = Some v'" by simp_all
    moreover from this pos have "(x', y') \<noteq> (getX me, getY me)" by auto
    ultimately show "getCell w x' y' = Some v' \<and>
      (x', y') \<in> set (getNeighbors w (getX me) (getY me))"
      using p by auto
  qed
  moreover have "\<forall>n \<in> set nbs. \<exists>nx ny.
              (nx, ny) \<in> set (getNeighbors w (getX me) (getY me)) \<and>
              getCell w' nx ny = Some n \<and>
              deref w' n =
                Some (case kind me of Ant \<Rightarrow> Ant_new nx ny | Doodlebug \<Rightarrow> Doodlebug_new nx ny)"
  proof
    fix n assume "n \<in> set nbs"
    from nw [OF this] obtain nx ny where
      "(nx, ny) \<in> set (getNeighbors w (getX me) (getY me))"
      "deref w' n = Some (Doodlebug_new nx ny)" "getCell w' nx ny = Some n"
      by blast
    then show "\<exists>nx ny.
              (nx, ny) \<in> set (getNeighbors w (getX me) (getY me)) \<and>
              getCell w' nx ny = Some n \<and>
              deref w' n =
                Some (case kind me of Ant \<Rightarrow> Ant_new nx ny | Doodlebug \<Rightarrow> Doodlebug_new nx ny)"
      using Doodlebug by auto
  qed
  ultimately show ?thesis
    using d' p rn al Doodlebug
    by (intro exI [of _ w'] exI [of _ vs] exI [of _ nbs]
        exI [of _ "me\<lparr>getX := x', getY := y',
               breedCount :=
                 (if DOODLE_BREED \<le> breedCount me + 1 then 0 else breedCount me + 1),
               starveCount := (if vs = [] then starveCount me + 1 else 0)\<rparr>"])
      simp
qed

theorem targets_among_initial_neighbors_witness:
  "consistent \<lparr>size_w = 3, age = 2,
       grid = [[Some 0, None, None], [None, None, None], [None, None, None]], allOrgs = [0],
       heap = [Some \<lparr>getX = 0, getY = 0, breedCount = 2, kind = Ant, starveCount = 0\<rparr>],
       rnd = [], allocs = []\<rparr> \<and>
   (\<exists>w' me'. Organism_update 0
       \<lparr>size_w = 3, age = 2,
       grid = [[Some 0, None, None], [None, None, None], [None, None, None]], allOrgs = [0],
       heap = [Some \<lparr>getX = 0, getY = 0, breedCount = 2, kind = Ant, starveCount = 0\<rparr>],
       rnd = [], allocs = []\<rparr> = Some w' \<and> deref w' 0 = Some me' \<and> rnd w' = [])"
proof -
  let ?me = "\<lparr>getX = 0, getY = 0, breedCount = 2, kind = Ant, starveCount = 0\<rparr>"
  let ?w = "\<lparr>size_w = 3, age = 2,
       grid = [[Some 0, None, None], [None, None, None], [None, None, None]], allOrgs = [0],
       heap = [Some ?me], rnd = [], allocs = []\<rparr>"
  have c: "consistent ?w"
    by (simp add: consistent_def wf_grid_def deref_def getCell_def inBounds_def small_ranges)
  have a: "0 \<in> set (allOrgs ?w)" by simp
  have d: "deref ?w 0 = Some ?me" by (simp add: deref_def)
  have k: "kind ?me = Doodlebug \<longrightarrow> starveCount ?me < DOODLE_STARVE" by simp
  from targets_among_initial_neighbors [OF c a d k] show ?thesis
    using c by (auto simp: ANT_BREED_def)
qed

text \<open>
  C1 as stated fails.  An ant at \<open>(0, 0)\<close> of an otherwise empty \<open>3 \<times> 3\<close> grid, with
  \<open>breedCount = 2\<close> and the identity shuffles: it moves to \<open>(0, 1)\<close>, and its offspring
  is placed at \<open>(1, 0)\<close>, a neighbour of the cell it left and not of the cell it is in.
\<close>

theorem offspring_beside_old_cell:
  "Organism_update 0
     \<lparr>size_w = 3, age = 2,
      grid = [[Some 0, None, None], [None, None, None], [None, None, None]], allOrgs = [0],
      heap = [Some \<lparr>getX = 0, getY = 0, breedCount = 2, kind = Ant, starveCount = 0\<rparr>],
      rnd = [], allocs = []\<rparr> =
   Some \<lparr>size_w = 3, age = 2,
      grid = [[None, Some 0, None], [Some 1, None, None], [None, None, None]], allOrgs = [0, 1],
      heap = [Some \<lparr>getX = 0, getY = 1, breedCount = 0, kind = Ant, starveCount = 0\<rparr>,
              Some \<lparr>getX = 1, getY = 0, breedCount = 0, kind = Ant, starveCount = 0\<rparr>],
      rnd = [], allocs = []\<rparr> \<and>
   (1, 0) \<notin> set (getNeighbors
     \<lparr>size_w = 3, age = 2,
      grid = [[None, Some 0, None], [Some 1, None, None], [None, None, None]], allOrgs = [0, 1],
      heap = [Some \<lparr>getX = 0, getY = 1, breedCount = 0, kind = Ant, starveCount = 0\<rparr>,
              Some \<lparr>getX = 1, getY = 0, breedCount = 0, kind = Ant, starveCount = 0\<rparr>],
      rnd = [], allocs = []\<rparr> 0 1)"
  by (simp add: Organism_update_def Ant_update_def breed_phase_def deref_def
      getNeighbors_def dirs_def inBounds_def shuffle_gen_def getCell_def setCell_def
      setPos_def store_def incBreed_def resetBreed_def ANT_BREED_def createAnt_def
      new_org_def Ant_new_def)

text \<open>
  C2.  In every reachable state grid and registry are consistent, \<open>World::update\<close> runs
  to completion without dereferencing a dangling pointer, and in the state it leaves:
  every registered organism is live and stored in the cell of its recorded position; the
  occupant of every non-empty cell is registered; and no organism occupies two cells (a
  cell is a single pointer, so it never holds two).
\<close>

theorem tick_preserves_consistency:
  assumes "reachable w"
  shows "\<exists>called w'. World_update w = Some (called, w') \<and> consistent w' \<and>
           (\<forall>a \<in> set (allOrgs w'). \<exists>org. deref w' a = Some org \<and>
               getCell w' (getX org) (getY org) = Some a) \<and>
           (\<forall>x y a. getCell w' x y = Some a \<longrightarrow> a \<in> set (allOrgs w')) \<and>
           (\<forall>x y x2 y2 a. getCell w' x y = Some a \<and> getCell w' x2 y2 = Some a \<longrightarrow>
               x = x2 \<and> y = y2)"
proof -
  have "consistent w" using assms by (rule reachable_consistent)
  from World_update_consistent [OF this] obtain called w' where
    u: "World_update w = Some (called, w')" and c: "consistent w'"
    by blast
  have "\<forall>a \<in> set (allOrgs w'). \<exists>org. deref w' a = Some org \<and>
               getCell w' (getX org) (getY org) = Some a"
    using c unfolding consistent_iff by blast
  moreover have "\<forall>x y a. getCell w' x y = Some a \<longrightarrow> a \<in> set (allOrgs w')"
    using c unfolding consistent_iff by blast
  moreover have "\<forall>x y x2 y2 a. getCell w' x y = Some a \<and> getCell w' x2 y2 = Some a \<longrightarrow>
               x = x2 \<and> y = y2"
    using consistent_one_cell [OF c] by blast
  ultimately show ?thesis using u c by blast
qed

theorem tick_preserves_consistency_witness:
  "reachable (createAnt (createDoodlebug (World 2 [] []) 0 0) 0 1) \<and>
   (\<exists>called w'.
      World_update (createAnt (createDoodlebug (World 2 [] []) 0 0) 0 1) = Some (called, w') \<and>
      consistent w')"
proof -
  have i0: "inBounds (World 2 [] []) 0 0" by (simp add: inBounds_def World_def)
  have i1: "inBounds (createDoodlebug (World 2 [] []) 0 0) 0 1"
    by (simp add: inBounds_def World_def)
  have r0: "reachable (World 2 [] [])" by (rule reachable.constructed) simp
  have r: "reachable (createAnt (createDoodlebug (World 2 [] []) 0 0) 0 1)"
    by (intro reachable.placed_ant reachable.placed_doodlebug r0 i0 i1)
  from tick_preserves_consistency [OF r] show ?thesis using r by blast
qed

text \<open>
  C3.  A doodlebug whose \<open>starveCount\<close> has reached \<open>DOODLE_STARVE\<close> when its update
  begins: the update is exactly the one call \<open>deleteCell(getX(), getY())\<close>.  It removes
  the doodlebug from the registry, clears its cell and destroys the object; no other
  cell, no other organism, no random number and no allocation is touched, so none of the
  later phases ran.
\<close>

theorem starved_doodlebug_removed:
  assumes "consistent w" "this \<in> set (allOrgs w)" "deref w this = Some me"
    "kind me = Doodlebug" "DOODLE_STARVE \<le> starveCount me"
  shows "\<exists>w'. Organism_update this w = Some w' \<and>
           deleteCell w (getX me) (getY me) = Some w' \<and>
           allOrgs w' = remove1 this (allOrgs w) \<and> this \<notin> set (allOrgs w') \<and>
           getCell w' (getX me) (getY me) = None \<and> deref w' this = None \<and>
           (\<forall>x y. \<not> (x = getX me \<and> y = getY me) \<longrightarrow> getCell w' x y = getCell w x y) \<and>
           (\<forall>b. b \<noteq> this \<longrightarrow> deref w' b = deref w b) \<and>
           rnd w' = rnd w \<and> allocs w' = allocs w \<and> age w' = age w \<and>
           size_w w' = size_w w \<and> consistent w'"
proof -
  let ?w' = "removed this (getX me) (getY me) w"
  have s: "starve me" using assms(5) by (simp add: starve_def)
  have g: "getCell w (getX me) (getY me) = Some this"
    and ib: "inBounds w (getX me) (getY me)"
    using assms(1-3) by (rule registered_position)+
  have wf: "wf_grid w" using assms(1) by (rule consistent_wf)
  have di: "distinct (allOrgs w)" using assms(1) by (simp add: consistent_def)
  have u: "Doodlebug_update this w = Some ?w'" and c': "consistent ?w'"
    using assms(1-3) s by (rule Doodlebug_starve_effect)+
  have "Organism_update this w = Some ?w'"
    using u assms(3,4) by (simp add: Organism_update_def)
  moreover have "deleteCell w (getX me) (getY me) = Some ?w'"
    using g assms(3) by (rule deleteCell_removed)
  moreover have "this \<notin> set (allOrgs ?w')" using di by simp
  moreover have "getCell ?w' x y =
      (if x = getX me \<and> y = getY me then None else getCell w x y)" for x y
    using wf ib by (rule getCell_removed)
  ultimately show ?thesis using c' by (simp add: deref_removed)
qed

theorem starved_doodlebug_removed_witness:
  "consistent \<lparr>size_w = 2, age = 7, grid = [[Some 0, None], [None, Some 1]], allOrgs = [0, 1],
       heap = [Some \<lparr>getX = 0, getY = 0, breedCount = 3, kind = Doodlebug, starveCount = 3\<rparr>,
               Some \<lparr>getX = 1, getY = 1, breedCount = 1, kind = Ant, starveCount = 0\<rparr>],
       rnd = [], allocs = []\<rparr> \<and>
   (\<exists>w'. Organism_update 0
       \<lparr>size_w = 2, age = 7, grid = [[Some 0, None], [None, Some 1]], allOrgs = [0, 1],
       heap = [Some \<lparr>getX = 0, getY = 0, breedCount = 3, kind = Doodlebug, starveCount = 3\<rparr>,
               Some \<lparr>getX = 1, getY = 1, breedCount = 1, kind = Ant, starveCount = 0\<rparr>],
       rnd = [], allocs = []\<rparr> = Some w' \<and> allOrgs w' = [1] \<and> getCell w' 0 0 = None)"
proof -
  let ?me = "\<lparr>getX = 0, getY = 0, breedCount = 3, kind = Doodlebug, starveCount = 3\<rparr>"
  let ?w = "\<lparr>size_w = 2, age = 7, grid = [[Some 0, None], [None, Some 1]], allOrgs = [0, 1],
       heap = [Some ?me,
               Some \<lparr>getX = 1, getY = 1, breedCount = 1, kind = Ant, starveCount = 0\<rparr>],
       rnd = [], allocs = []\<rparr>"
  have c: "consistent ?w"
    by (simp add: consistent_def wf_grid_def deref_def getCell_def inBounds_def small_ranges)
  have a: "0 \<in> set (allOrgs ?w)" by simp
  have d: "deref ?w 0 = Some ?me" by (simp add: deref_def)
  have k: "kind ?me = Doodlebug" by simp
  have s: "DOODLE_STARVE \<le> starveCount ?me" by (simp add: DOODLE_STARVE_def)
  from starved_doodlebug_removed [OF c a d k s] show ?thesis using c by auto
qed


text \<open>
  C5.  A doodlebug that is not starving when its update begins survives it, and its
  \<open>starveCount\<close> afterwards is 0 if a neighbouring cell held an ant (it ate) and the
  previous value plus 1 otherwise, whatever the movement phase did.  The update of any
  other organism leaves the doodlebug and its \<open>starveCount\<close> as they were.
\<close>

theorem starveCount_after_update:
  assumes "consistent w" "this \<in> set (allOrgs w)" "deref w this = Some me"
    "kind me = Doodlebug" "starveCount me < DOODLE_STARVE"
  shows "(\<exists>w' me'. Organism_update this w = Some w' \<and> this \<in> set (allOrgs w') \<and>
            deref w' this = Some me' \<and>
            starveCount me' =
              (if \<exists>c \<in> set (getNeighbors w (getX me) (getY me)). holds_Ant w c then 0
               else starveCount me + 1)) \<and>
         (\<forall>other \<in> set (allOrgs w). other \<noteq> this \<longrightarrow>
            (\<exists>w'. Organism_update other w = Some w' \<and> deref w' this = Some me))"
proof
  have s: "\<not> starve me" using assms(5) by (simp add: starve_def)
  obtain w' x' y' vs nbs where
    u: "Doodlebug_update this w = Some w'"
    and al: "allOrgs w' = foldr remove1 vs (allOrgs w) @ nbs" and lv: "length vs \<le> 1"
    and e: "(vs = []) = (\<forall>c \<in> set (getNeighbors w (getX me) (getY me)). \<not> holds_Ant w c)"
    and d': "deref w' this =
       Some (me\<lparr>getX := x', getY := y',
               breedCount :=
                 (if DOODLE_BREED \<le> breedCount me + 1 then 0 else breedCount me + 1),
               starveCount := (if vs = [] then starveCount me + 1 else 0)\<rparr>)"
    and v: "\<And>v. v \<in> set vs \<Longrightarrow> v \<noteq> this \<and> getCell w x' y' = Some v \<and>
       getCell w' x' y' = Some this \<and> (\<exists>ov. deref w v = Some ov \<and> kind ov = Ant)"
    by (rule Doodlebug_update_effect [OF assms(1-4) s]) (rule that)
  have "this \<in> set (foldr remove1 vs (allOrgs w))"
  proof (cases vs)
    case Nil
    then show ?thesis using assms(2) by simp
  next
    case (Cons v vs')
    then have "vs = [v]" using lv by simp
    moreover have "v \<noteq> this" using v [of v] Cons by simp
    ultimately show ?thesis using assms(2) by simp
  qed
  then have "this \<in> set (allOrgs w')" by (simp add: al)
  moreover have "Organism_update this w = Some w'"
    using u assms(3,4) by (simp add: Organism_update_def)
  ultimately show "\<exists>w' me'. Organism_update this w = Some w' \<and> this \<in> set (allOrgs w') \<and>
            deref w' this = Some me' \<and>
            starveCount me' =
              (if \<exists>c \<in> set (getNeighbors w (getX me) (getY me)). holds_Ant w c then 0
               else starveCount me + 1)"
    using d' e by auto
next
  show "\<forall>other \<in> set (allOrgs w). other \<noteq> this \<longrightarrow>
            (\<exists>w'. Organism_update other w = Some w' \<and> deref w' this = Some me)"
  proof (intro ballI impI)
    fix other
    assume "other \<in> set (allOrgs w)" "other \<noteq> this"
    then have "this \<noteq> other" by simp
    from Organism_update_others [OF assms(1) \<open>other \<in> set (allOrgs w)\<close> this assms(3)]
    show "\<exists>w'. Organism_update other w = Some w' \<and> deref w' this = Some me"
      using assms(4) by auto
  qed
qed

theorem starveCount_after_update_witness:
  "consistent \<lparr>size_w = 2, age = 0, grid = [[Some 0, Some 1], [None, None]], allOrgs = [0, 1],
       heap = [Some \<lparr>getX = 0, getY = 0, breedCount = 0, kind = Doodlebug, starveCount = 2\<rparr>,
               Some \<lparr>getX = 0, getY = 1, breedCount = 0, kind = Ant, starveCount = 0\<rparr>],
       rnd = [], allocs = []\<rparr> \<and>
   (\<exists>w' me'. Organism_update 0
       \<lparr>size_w = 2, age = 0, grid = [[Some 0, Some 1], [None, None]], allOrgs = [0, 1],
       heap = [Some \<lparr>getX = 0, getY = 0, breedCount = 0, kind = Doodlebug, starveCount = 2\<rparr>,
               Some \<lparr>getX = 0, getY = 1, breedCount = 0, kind = Ant, starveCount = 0\<rparr>],
       rnd = [], allocs = []\<rparr> = Some w' \<and> deref w' 0 = Some me' \<and> starveCount me' = 0) \<and>
   (\<exists>w'. Organism_update 1
       \<lparr>size_w = 2, age = 0, grid = [[Some 0, Some 1], [None, None]], allOrgs = [0, 1],
       heap = [Some \<lparr>getX = 0, getY = 0, breedCount = 0, kind = Doodlebug, starveCount = 2\<rparr>,
               Some \<lparr>getX = 0, getY = 1, breedCount = 0, kind = Ant, starveCount = 0\<rparr>],
       rnd = [], allocs = []\<rparr> = Some w' \<and>
       deref w' 0 =
         Some \<lparr>getX = 0, getY = 0, breedCount = 0, kind = Doodlebug, starveCount = 2\<rparr>)"
proof -
  let ?me = "\<lparr>getX = 0, getY = 0, breedCount = 0, kind = Doodlebug, starveCount = 2\<rparr>"
  let ?w = "\<lparr>size_w = 2, age = 0, grid = [[Some 0, Some 1], [None, None]], allOrgs = [0, 1],
       heap = [Some ?me,
               Some \<lparr>getX = 0, getY = 1, breedCount = 0, kind = Ant, starveCount = 0\<rparr>],
       rnd = [], allocs = []\<rparr>"
  have c: "consistent ?w"
    by (simp add: consistent_def wf_grid_def deref_def getCell_def inBounds_def small_ranges)
  have a: "0 \<in> set (allOrgs ?w)" by simp
  have d: "deref ?w 0 = Some ?me" by (simp add: deref_def)
  have k: "kind ?me = Doodlebug" by simp
  have s: "starveCount ?me < DOODLE_STARVE" by (simp add: DOODLE_STARVE_def)
  have h: "\<exists>c \<in> set (getNeighbors ?w (getX ?me) (getY ?me)). holds_Ant ?w c"
    by (simp add: getNeighbors_def dirs_def inBounds_def holds_Ant_def getCell_def deref_def)
  from starveCount_after_update [OF c a d k s] show ?thesis using c h by auto
qed

text \<open>
  C6.  An organism that survives its own update (every ant; a doodlebug that is not
  starving) has afterwards \<open>breedCount\<close> equal to the previous value plus 1, unless
  that reaches the breed threshold of its species (3 for ants, 8 for doodlebugs), in
  which case it is 0 - with or without an empty neighbouring cell for the offspring.
  The update of any other organism leaves its \<open>breedCount\<close> as it was, unless that
  other organism is a doodlebug eating it.
\<close>

theorem breedCount_after_update:
  assumes "consistent w" "this \<in> set (allOrgs w)" "deref w this = Some me"
    "kind me = Doodlebug \<longrightarrow> starveCount me < DOODLE_STARVE"
  shows "ANT_BREED = 3 \<and> DOODLE_BREED = 8 \<and>
         (\<exists>w' me'. Organism_update this w = Some w' \<and> this \<in> set (allOrgs w') \<and>
            deref w' this = Some me' \<and>
            breedCount me' =
              (if (case kind me of Ant \<Rightarrow> ANT_BREED | Doodlebug \<Rightarrow> DOODLE_BREED)
                    \<le> breedCount me + 1
               then 0 else breedCount me + 1)) \<and>
         (\<forall>other \<in> set (allOrgs w). other \<noteq> this \<longrightarrow>
            (\<exists>w'. Organism_update other w = Some w' \<and>
               (deref w' this = Some me \<or>
                kind me = Ant \<and> getCell w' (getX me) (getY me) = Some other)))"
proof (intro conjI)
  show "ANT_BREED = 3" "DOODLE_BREED = 8" by (simp_all add: ANT_BREED_def DOODLE_BREED_def)
  show "\<exists>w' me'. Organism_update this w = Some w' \<and> this \<in> set (allOrgs w') \<and>
            deref w' this = Some me' \<and>
            breedCount me' =
              (if (case kind me of Ant \<Rightarrow> ANT_BREED | Doodlebug \<Rightarrow> DOODLE_BREED)
                    \<le> breedCount me + 1
               then 0 else breedCount me + 1)"
  proof (cases "kind me")
    case Ant
    obtain w' x' y' nbs where "Ant_update this w = Some w'"
      "allOrgs w' = allOrgs w @ nbs"
      "deref w' this =
       Some (me\<lparr>getX := x', getY := y',
               breedCount := (if ANT_BREED \<le> breedCount me + 1 then 0 else breedCount me + 1)\<rparr>)"
      by (rule Ant_update_effect [OF assms(1-3)]) (rule that)
    then show ?thesis using Ant assms(2,3) by (simp add: Organism_update_def)
  next
    case Doodlebug
    then have s: "\<not> starve me" using assms(4) by (simp add: starve_def)
    obtain w' x' y' vs nbs where
      u: "Doodlebug_update this w = Some w'"
      and al: "allOrgs w' = foldr remove1 vs (allOrgs w) @ nbs" and lv: "length vs \<le> 1"
      and d': "deref w' this =
         Some (me\<lparr>getX := x', getY := y',
               breedCount :=
                 (if DOODLE_BREED \<le> breedCount me + 1 then 0 else breedCount me + 1),
               starveCount := (if vs = [] then starveCount me + 1 else 0)\<rparr>)"
      and v: "\<And>v. v \<in> set vs \<Longrightarrow> v \<noteq> this \<and> getCell w x' y' = Some v \<and>
         getCell w' x' y' = Some this \<and> (\<exists>ov. deref w v = Some ov \<and> kind ov = Ant)"
      by (rule Doodlebug_update_effect [OF assms(1-3) Doodlebug s]) (rule that)
    have "this \<in> set (foldr remove1 vs (allOrgs w))"
    proof (cases vs)
      case Nil
      then show ?thesis using assms(2) by simp
    next
      case (Cons v vs')
      then have "vs = [v]" using lv by simp
      moreover have "v \<noteq> this" using v [of v] Cons by simp
      ultimately show ?thesis using assms(2) by simp
    qed
    then have "this \<in> set (allOrgs w')" by (simp add: al)
    then show ?thesis using u d' Doodlebug assms(3) by (simp add: Organism_update_def)
  qed
  show "\<forall>other \<in> set (allOrgs w). other \<noteq> this \<longrightarrow>
            (\<exists>w'. Organism_update other w = Some w' \<and>
               (deref w' this = Some me \<or>
                kind me = Ant \<and> getCell w' (getX me) (getY me) = Some other))"
  proof (intro ballI impI)
    fix other
    assume o: "other \<in> set (allOrgs w)" and "other \<noteq> this"
    then have "this \<noteq> other" by simp
    from Organism_update_others [OF assms(1) o this assms(3)]
    show "\<exists>w'. Organism_update other w = Some w' \<and>
               (deref w' this = Some me \<or>
                kind me = Ant \<and> getCell w' (getX me) (getY me) = Some other)"
      by auto
  qed
qed

theorem breedCount_after_update_witness:
  "consistent \<lparr>size_w = 1, age = 2, grid = [[Some 0]], allOrgs = [0],
       heap = [Some \<lparr>getX = 0, getY = 0, breedCount = 2, kind = Ant, starveCount = 0\<rparr>],
       rnd = [], allocs = []\<rparr> \<and>
   (\<exists>w' me'. Organism_update 0
       \<lparr>size_w = 1, age = 2, grid = [[Some 0]], allOrgs = [0],
       heap = [Some \<lparr>getX = 0, getY = 0, breedCount = 2, kind = Ant, starveCount = 0\<rparr>],
       rnd = [], allocs = []\<rparr> = Some w' \<and> deref w' 0 = Some me' \<and> breedCount me' = 0)"
proof -
  let ?me = "\<lparr>getX = 0, getY = 0, breedCount = 2, kind = Ant, starveCount = 0\<rparr>"
  let ?w = "\<lparr>size_w = 1, age = 2, grid = [[Some 0]], allOrgs = [0], heap = [Some ?me],
       rnd = [], allocs = []\<rparr>"
  have c: "consistent ?w"
    by (simp add: consistent_def wf_grid_def deref_def getCell_def inBounds_def small_ranges)
  have a: "0 \<in> set (allOrgs ?w)" by simp
  have d: "deref ?w 0 = Some ?me" by (simp add: deref_def)
  have k: "kind ?me = Doodlebug \<longrightarrow> starveCount ?me < DOODLE_STARVE" by simp
  from breedCount_after_update [OF c a d k] show ?thesis
    using c by (auto simp: ANT_BREED_def)
qed

text \<open>
  C7 fails in the run that starts from the freshly populated world \<open>reuse_start\<close>.
  In its third tick the snapshot is \<open>[0, 1, 2]\<close>.  The doodlebug (address 0) eats the ant at
  address 2, whose object is deleted.  The ant at address 1 then breeds, and \<open>new\<close>
  returns the address 2 for the offspring.  When the scheduler reaches the snapshot entry
  2 it finds that address in the live registry and calls \<open>update\<close> on the offspring, which
  moves and counts its first breeding step in the tick of its birth.
\<close>

theorem newborn_updated_in_birth_tick:
  "World_update reuse_start = Some ([0, 1, 2], reuse_tick1) \<and>
   World_update reuse_tick1 = Some ([0, 1, 2], reuse_tick2) \<and>
   Organism_update 0 (reuse_tick2\<lparr>age := 3\<rparr>) = Some reuse_eaten \<and>
   2 \<notin> set (allOrgs reuse_eaten) \<and> deref reuse_eaten 2 = None \<and>
   Organism_update 1 reuse_eaten = Some reuse_born \<and>
   allOrgs reuse_born = [0, 1, 2] \<and> deref reuse_born 2 = Some (Ant_new 1 2) \<and>
   Organism_update 2 reuse_born = Some reuse_tick3 \<and>
   World_update reuse_tick2 = Some ([0, 1, 2], reuse_tick3) \<and>
   deref reuse_tick3 2 =
     Some \<lparr>getX = 2, getY = 2, breedCount = 1, kind = Ant, starveCount = 0\<rparr>"
proof -
  have s0: "reuse_start =
    \<lparr>size_w = 3, age = 0,
      grid = [[None, Some 0, None], [None, None, None], [Some 2, None, Some 1]],
      allOrgs = [0, 1, 2],
      heap = [Some \<lparr>getX = 0, getY = 1, breedCount = 0, kind = Doodlebug, starveCount = 0\<rparr>,
              Some \<lparr>getX = 2, getY = 2, breedCount = 0, kind = Ant, starveCount = 0\<rparr>,
              Some \<lparr>getX = 2, getY = 0, breedCount = 0, kind = Ant, starveCount = 0\<rparr>],
      rnd = [], allocs = [2]\<rparr>"
    by (simp add: reuse_start_def run_defs numeral_3_eq_3)
  have "World_update reuse_start = Some ([0, 1, 2], reuse_tick1)"
    unfolding s0 by (simp add: reuse_tick1_def run_defs)
  moreover have "World_update reuse_tick1 = Some ([0, 1, 2], reuse_tick2)"
    by (simp add: reuse_tick1_def reuse_tick2_def run_defs)
  moreover have "Organism_update 0 (reuse_tick2\<lparr>age := 3\<rparr>) = Some reuse_eaten"
    by (simp add: reuse_eaten_def reuse_tick2_def run_defs)
  moreover have "2 \<notin> set (allOrgs reuse_eaten)" "deref reuse_eaten 2 = None"
    by (simp_all add: reuse_eaten_def deref_def)
  moreover have "Organism_update 1 reuse_eaten = Some reuse_born"
    by (simp add: reuse_eaten_def reuse_born_def run_defs)
  moreover have "allOrgs reuse_born = [0, 1, 2]" "deref reuse_born 2 = Some (Ant_new 1 2)"
    by (simp_all add: reuse_born_def deref_def Ant_new_def)
  moreover have "Organism_update 2 reuse_born = Some reuse_tick3"
    by (simp add: reuse_tick3_def reuse_born_def run_defs)
  moreover have "World_update reuse_tick2 = Some ([0, 1, 2], reuse_tick3)"
    by (simp add: reuse_tick2_def reuse_tick3_def run_defs)
  moreover have "deref reuse_tick3 2 =
     Some \<lparr>getX = 2, getY = 2, breedCount = 1, kind = Ant, starveCount = 0\<rparr>"
    by (simp add: reuse_tick3_def deref_def)
  ultimately show ?thesis by blast
qed

text \<open>
  C8 fails in the tick that starts from the reachable state \<open>reuse_tick2\<close>, the third
  of the run from \<open>reuse_start\<close>.  The shuffled snapshot is \<open>[0, 1, 2]\<close>.  After the call on
  entry 0 the pointer 2 is no longer in the registry: its organism was eaten.  After the
  call on entry 1 the pointer 2 is in the registry again, for the offspring.  The test of
  line 262 therefore does not skip entry 2, and the receivers of the tick are
  \<open>[0, 1, 2]\<close>: the entry of an organism removed earlier in the tick is invoked.
\<close>

theorem removed_entry_not_skipped:
  "fst (shuffle_gen (allOrgs (reuse_tick2\<lparr>age := 3\<rparr>)) (reuse_tick2\<lparr>age := 3\<rparr>)) = [0, 1, 2] \<and>
   update_loop [0] (reuse_tick2\<lparr>age := 3\<rparr>) = Some ([0], reuse_eaten) \<and>
   2 \<notin> set (allOrgs reuse_eaten) \<and>
   update_loop [0, 1] (reuse_tick2\<lparr>age := 3\<rparr>) = Some ([0, 1], reuse_born) \<and>
   2 \<in> set (allOrgs reuse_born) \<and>
   update_loop [0, 1, 2] (reuse_tick2\<lparr>age := 3\<rparr>) = Some ([0, 1, 2], reuse_tick3) \<and>
   World_update reuse_tick2 = Some ([0, 1, 2], reuse_tick3)"
proof -
  have "fst (shuffle_gen (allOrgs (reuse_tick2\<lparr>age := 3\<rparr>)) (reuse_tick2\<lparr>age := 3\<rparr>)) =
      [0, 1, 2]"
    by (simp add: reuse_tick2_def shuffle_gen_def)
  moreover have "update_loop [0] (reuse_tick2\<lparr>age := 3\<rparr>) = Some ([0], reuse_eaten)"
    by (simp add: reuse_eaten_def reuse_tick2_def run_defs)
  moreover have "2 \<notin> set (allOrgs reuse_eaten)" "2 \<in> set (allOrgs reuse_born)"
    by (simp_all add: reuse_eaten_def reuse_born_def)
  moreover have "update_loop [0, 1] (reuse_tick2\<lparr>age := 3\<rparr>) = Some ([0, 1], reuse_born)"
    by (simp add: reuse_born_def reuse_tick2_def run_defs)
  moreover have
    "update_loop [0, 1, 2] (reuse_tick2\<lparr>age := 3\<rparr>) = Some ([0, 1, 2], reuse_tick3)"
    by (simp add: reuse_tick3_def reuse_tick2_def run_defs)
  moreover have "World_update reuse_tick2 = Some ([0, 1, 2], reuse_tick3)"
    by (simp add: reuse_tick2_def reuse_tick3_def run_defs)
  ultimately show ?thesis by blast
qed

text \<open>
  C9 (as amended).  Outside the grid \<open>getCell\<close> yields \<open>nullptr\<close> and \<open>setCell\<close> changes
  nothing; inside, the indices used by \<open>getCell\<close> are within the vectors, so no access
  faults.  \<open>getNeighbors\<close> returns distinct in-bounds cells at distance exactly one step
  in one of the four orthogonal directions (so neither diagonal nor wrapped).  In a grid of
  side at least 2 an interior cell has exactly 4 neighbours, a corner cell 2 and any other
  edge cell 3.  (In a grid of side 1 the only cell has no neighbour.)
\<close>

theorem grid_access_total:
  assumes "wf_grid w"
  shows "(\<not> inBounds w x y \<longrightarrow> getCell w x y = None \<and> setCell w x y v = w) \<and>
         (inBounds w x y \<longrightarrow> nat x < length (grid w) \<and> nat y < length (grid w ! nat x)) \<and>
         (\<forall>(nx, ny) \<in> set (getNeighbors w x y).
             inBounds w nx ny \<and> \<bar>nx - x\<bar> + \<bar>ny - y\<bar> = 1) \<and>
         distinct (getNeighbors w x y) \<and>
         (2 \<le> size_w w \<and> inBounds w x y \<longrightarrow>
            length (getNeighbors w x y) =
              (if 0 < x \<and> x < size_w w - 1 \<and> 0 < y \<and> y < size_w w - 1 then 4
               else if (x = 0 \<or> x = size_w w - 1) \<and> (y = 0 \<or> y = size_w w - 1) then 2
               else 3))"
proof (intro conjI)
  show "\<not> inBounds w x y \<longrightarrow> getCell w x y = None \<and> setCell w x y v = w"
    by (simp add: getCell_def setCell_def)
  show "inBounds w x y \<longrightarrow> nat x < length (grid w) \<and> nat y < length (grid w ! nat x)"
  proof
    assume ib: "inBounds w x y"
    then have x: "nat x < length (grid w)" using assms by (simp add: wf_grid_def inBounds_def)
    then have "grid w ! nat x \<in> set (grid w)" by simp
    then have "length (grid w ! nat x) = nat (size_w w)" using assms by (simp add: wf_grid_def)
    then show "nat x < length (grid w) \<and> nat y < length (grid w ! nat x)"
      using x ib by (simp add: inBounds_def)
  qed
  show "\<forall>(nx, ny) \<in> set (getNeighbors w x y). inBounds w nx ny \<and> \<bar>nx - x\<bar> + \<bar>ny - y\<bar> = 1"
    by (auto simp: getNeighbors_def dirs_def)
  show "distinct (getNeighbors w x y)"
    by (simp add: getNeighbors_def dirs_def)
  show "2 \<le> size_w w \<and> inBounds w x y \<longrightarrow>
            length (getNeighbors w x y) =
              (if 0 < x \<and> x < size_w w - 1 \<and> 0 < y \<and> y < size_w w - 1 then 4
               else if (x = 0 \<or> x = size_w w - 1) \<and> (y = 0 \<or> y = size_w w - 1) then 2
               else 3)"
    by (auto simp: getNeighbors_def dirs_def inBounds_def)
qed

theorem grid_access_total_witness:
  "wf_grid (World 3 [] []) \<and>
   inBounds (World 3 [] []) 1 1 \<and> length (getNeighbors (World 3 [] []) 1 1) = 4 \<and>
   \<not> inBounds (World 3 [] []) 3 0 \<and> getCell (World 3 [] []) 3 0 = None \<and>
   setCell (World 3 [] []) 3 0 (Some 7) = World 3 [] [] \<and>
   distinct (getNeighbors (World 3 [] []) 1 1)"
proof -
  have wf: "wf_grid (World 3 [] [])" by (simp add: wf_grid_def World_def)
  have i: "inBounds (World 3 [] []) 1 1" and o: "\<not> inBounds (World 3 [] []) 3 0"
    and s: "size_w (World 3 [] []) = 3"
    by (simp_all add: inBounds_def World_def)
  show ?thesis
    using wf i o grid_access_total [OF wf, of 1 1] grid_access_total [OF wf, of 3 0 "Some 7"]
    by (auto simp: s)
qed

text \<open>
  C9 as stated fails on a grid of side 1: its only cell is a corner cell and has no
  neighbour at all, not 2 or 3.
\<close>

theorem one_cell_grid_no_neighbors:
  "inBounds (World 1 [] []) 0 0 \<and> length (getNeighbors (World 1 [] []) 0 0) \<notin> {2, 3}"
  by (simp add: getNeighbors_def dirs_def inBounds_def World_def)

text \<open>
  C10.  At an in-bounds cell that is occupied, \<open>createAnt\<close> and \<open>createDoodlebug\<close> change
  nothing at all.  At an empty one the new organism is appended to the registry and its
  pointer stored in that very cell.  Either way a consistent world stays consistent.
\<close>

theorem create_respects_occupancy:
  assumes "inBounds w x y"
  shows "(getCell w x y \<noteq> None \<longrightarrow> createAnt w x y = w \<and> createDoodlebug w x y = w) \<and>
         (wf_grid w \<and> getCell w x y = None \<longrightarrow>
            (\<exists>a. allOrgs (createAnt w x y) = allOrgs w @ [a] \<and>
                 getCell (createAnt w x y) x y = Some a \<and>
                 deref (createAnt w x y) a = Some (Ant_new x y)) \<and>
            (\<exists>d. allOrgs (createDoodlebug w x y) = allOrgs w @ [d] \<and>
                 getCell (createDoodlebug w x y) x y = Some d \<and>
                 deref (createDoodlebug w x y) d = Some (Doodlebug_new x y))) \<and>
         (consistent w \<longrightarrow> consistent (createAnt w x y) \<and> consistent (createDoodlebug w x y))"
proof (intro conjI impI)
  assume "getCell w x y \<noteq> None"
  then show "createAnt w x y = w" "createDoodlebug w x y = w"
    by (auto simp: createAnt_def createDoodlebug_def)
next
  assume h: "wf_grid w \<and> getCell w x y = None"
  have "\<exists>a. allOrgs (place obj w x y) = allOrgs w @ [a] \<and>
            getCell (place obj w x y) x y = Some a \<and>
            deref (place obj w x y) a = Some obj" for obj
  proof (rule place_effect [of w x y obj])
    show "wf_grid w" using h by simp
    show "inBounds w x y" by (rule assms)
  qed auto
  then show "\<exists>a. allOrgs (createAnt w x y) = allOrgs w @ [a] \<and>
                 getCell (createAnt w x y) x y = Some a \<and>
                 deref (createAnt w x y) a = Some (Ant_new x y)"
    and "\<exists>d. allOrgs (createDoodlebug w x y) = allOrgs w @ [d] \<and>
                 getCell (createDoodlebug w x y) x y = Some d \<and>
                 deref (createDoodlebug w x y) d = Some (Doodlebug_new x y)"
    using h by (simp_all add: createAnt_place createDoodlebug_place)
next
  assume "consistent w"
  then show "consistent (createAnt w x y)" "consistent (createDoodlebug w x y)"
    using assms by (simp_all add: consistent_createAnt consistent_createDoodlebug)
qed

theorem create_respects_occupancy_witness:
  "inBounds (createAnt (World 2 [] []) 0 0) 0 0 \<and>
   getCell (createAnt (World 2 [] []) 0 0) 0 0 \<noteq> None \<and>
   createDoodlebug (createAnt (World 2 [] []) 0 0) 0 0 = createAnt (World 2 [] []) 0 0 \<and>
   createAnt (createAnt (World 2 [] []) 0 0) 0 0 = createAnt (World 2 [] []) 0 0 \<and>
   consistent (createAnt (World 2 [] []) 0 0) \<and>
   inBounds (createAnt (World 2 [] []) 0 0) 1 1 \<and>
   getCell (createAnt (World 2 [] []) 0 0) 1 1 = None \<and>
   consistent (createDoodlebug (createAnt (World 2 [] []) 0 0) 1 1)"
proof -
  define w where "w = createAnt (World 2 [] []) 0 0"
  have w: "w = \<lparr>size_w = 2, age = 0, grid = [[Some 0, None], [None, None]], allOrgs = [0],
       heap = [Some (Ant_new 0 0)], rnd = [], allocs = []\<rparr>"
    by (simp add: w_def createAnt_def World_def new_org_def setCell_def inBounds_def
        getCell_def numeral_2_eq_2)
  have c0: "consistent (World 2 [] [])" by (simp add: consistent_World)
  have i0: "inBounds (World 2 [] []) 0 0" by (simp add: inBounds_def World_def)
  have c: "consistent w"
    unfolding w_def using c0 i0 by (rule consistent_createAnt)
  have i: "inBounds w 0 0" "inBounds w 1 1" by (simp_all add: w inBounds_def)
  have g: "getCell w 0 0 \<noteq> None" "getCell w 1 1 = None"
    by (simp_all add: w getCell_def inBounds_def)
  show ?thesis
    using create_respects_occupancy [OF i(1)] create_respects_occupancy [OF i(2)] c i g
    unfolding w_def [symmetric] by simp
qed

end
